theory Spec2Isabelle
  imports Complex_Main
begin

section \<open>Data model\<close>

text \<open>
  A JavaScript number is a real number or \<open>NaN\<close>: the code tests
  \<^verbatim>\<open>isNaN\<close> explicitly. The two infinities are outside the model. Rounding to
  binary64 is modelled where the map view computes a distance and compares it with a
  threshold (\<open>binary64\<close> below); the numerals the extractor parses and the
  latitudes the saved-places panel compares are taken as the reals they denote.
  Strings are lists of 8-bit code units.
\<close>

datatype number = NaN | Num real

fun isNaN :: "number \<Rightarrow> bool" where
  "isNaN NaN = True"
| "isNaN (Num r) = False"

text \<open>
  Arithmetic and comparison on numbers as JavaScript defines them: an operation with
  a \<open>NaN\<close> operand is \<open>NaN\<close>, and a comparison with one is false.
\<close>

fun num_sub :: "number \<Rightarrow> number \<Rightarrow> number" where
  "num_sub (Num a) (Num b) = Num (a - b)"
| "num_sub _ _ = NaN"

fun num_lt :: "number \<Rightarrow> number \<Rightarrow> bool" where
  "num_lt (Num a) (Num b) = (a < b)"
| "num_lt _ _ = False"

fun num_le :: "number \<Rightarrow> number \<Rightarrow> bool" where
  "num_le (Num a) (Num b) = (a \<le> b)"
| "num_le _ _ = False"

fun Math_abs :: "number \<Rightarrow> number" where
  "Math_abs (Num a) = Num \<bar>a\<bar>"
| "Math_abs NaN = NaN"

fun Math_min :: "number \<Rightarrow> number \<Rightarrow> number" where
  "Math_min (Num a) (Num b) = Num (min a b)"
| "Math_min _ _ = NaN"

fun Math_max :: "number \<Rightarrow> number \<Rightarrow> number" where
  "Math_max (Num a) (Num b) = Num (max a b)"
| "Math_max _ _ = NaN"

text \<open>
  The value a real takes when it is stored as a binary64: the nearest multiple of the
  unit in the last place, the even one of two that are equally near. For a magnitude
  between \<open>2 ^ k\<close> and \<open>2 ^ (k + 1)\<close> the unit is \<open>2 ^ (k - 52)\<close>, and it is
  \<open>2 ^ (- 1074)\<close> for every magnitude below \<open>2 ^ (- 1022)\<close>. A result beyond the
  largest binary64 would be an infinity and is outside the model.
\<close>

definition binary64 :: "real \<Rightarrow> real" where
  "binary64 x =
     (if x = 0 then 0
      else (let e = max \<lfloor>log 2 \<bar>x\<bar>\<rfloor> (- 1022) - 52;
                q = x / 2 powi e;
                n = \<lfloor>q\<rfloor>
            in (if q - of_int n < 1 / 2 then of_int n
                else if 1 / 2 < q - of_int n then of_int (n + 1)
                else if even n then of_int n else of_int (n + 1)) * 2 powi e))"

text \<open>
  The arithmetic of the distance computation, each result rounded: \<^verbatim>\<open>a - b\<close>,
  \<^verbatim>\<open>a + b\<close>, \<^verbatim>\<open>Math.pow(a, 2)\<close> and \<^verbatim>\<open>Math.sqrt(a)\<close>. The language
  defines the difference, the sum and the square root as the rounded exact result;
  it leaves the accuracy of \<^verbatim>\<open>Math.pow\<close> to the engine, and the square is
  taken here as the rounded exact square as well.
\<close>

fun float_sub :: "number \<Rightarrow> number \<Rightarrow> number" where
  "float_sub (Num a) (Num b) = Num (binary64 (a - b))"
| "float_sub _ _ = NaN"

fun float_add :: "number \<Rightarrow> number \<Rightarrow> number" where
  "float_add (Num a) (Num b) = Num (binary64 (a + b))"
| "float_add _ _ = NaN"

fun Math_pow2 :: "number \<Rightarrow> number" where
  "Math_pow2 (Num a) = Num (binary64 (a ^ 2))"
| "Math_pow2 NaN = NaN"

fun Math_sqrt :: "number \<Rightarrow> number" where
  "Math_sqrt (Num a) = (if a < 0 then NaN else Num (binary64 (sqrt a)))"
| "Math_sqrt NaN = NaN"

text \<open>
  The module \<^verbatim>\<open>types\<close> declares the interfaces \<^verbatim>\<open>LatLng\<close>, \<^verbatim>\<open>Place\<close>
  and \<^verbatim>\<open>GroundingSource\<close>: a coordinate is a pair of numbers, a place has an id, a
  name, a coordinate and an optional description, a citation has a uri and a title.
\<close>

record LatLng =
  lat :: number
  lng :: number

record Place =
  place_id :: string
  name :: string
  coordinate :: LatLng
  description :: "string option"

record GroundingSource =
  uri :: string
  title :: string

text \<open>
  What the code can throw: a missing API key, a failure of the transport call, and the
  \<^verbatim>\<open>TypeError\<close> of calling a method on \<^verbatim>\<open>undefined\<close>.
\<close>

datatype error = ApiKeyNotFound | TransportError | TypeError

section \<open>The coordinate extractor (geminiService.ts)\<close>

subsection \<open>Regular expressions\<close>

text \<open>
  The extractor is a regular expression run by \<^verbatim>\<open>exec\<close> in a loop. Its meaning
  is the one ECMAScript gives to a pattern: a backtracking match that tries
  alternatives in a fixed order and answers with the first success. This section
  defines that meaning for the constructs the pattern uses.

  The character classes: \<^verbatim>\<open>\s\<close> is white space and line terminators, the dot is
  every character but a line terminator, \<^verbatim>\<open>\d\<close> is a decimal digit.
\<close>

definition isWhiteSpace :: "char \<Rightarrow> bool" where
  "isWhiteSpace c = (c \<in> set [CHR 0x20, CHR 0x0A, CHR 0x09, CHR 0x0D, CHR 0x0B, CHR 0x0C, CHR 0xA0])"

definition isLineTerminator :: "char \<Rightarrow> bool" where
  "isLineTerminator c = (c = CHR 0x0A \<or> c = CHR 0x0D)"

definition isDigit :: "char \<Rightarrow> bool" where
  "isDigit c = (c \<in> set ''0123456789'')"

text \<open>
  The syntax: the empty pattern, a character, the three classes, a bracketed class,
  \<^verbatim>\<open>^\<close>, sequence, alternative \<^verbatim>\<open>a|b\<close>, the greedy \<^verbatim>\<open>a?\<close> and \<^verbatim>\<open>a*\<close>,
  the lazy \<^verbatim>\<open>a*?\<close>, the greedy \<^verbatim>\<open>a+\<close>, and a capturing group with its number.
\<close>

datatype regex =
    Empty
  | Lit char
  | Dot
  | WhiteSpace
  | Digit
  | OneOf string
  | LineStart
  | Seq regex regex
  | Alt regex regex
  | Opt regex
  | Star regex
  | LazyStar regex
  | Plus regex
  | Group nat regex

text \<open>
  A state of the match is the end index, the captures made so far, and the input from
  the end index on, kept alongside so that reading a character is a pattern match.
\<close>

record match_state =
  endIndex :: nat
  rest :: string
  captures :: "(nat \<times> string) list"

text \<open>
  A repetition forgets the captures of the groups inside it at the start of each round;
  closing a group records what was consumed since the group was entered.
\<close>

primrec groups :: "regex \<Rightarrow> nat list" where
  "groups Empty = []"
| "groups (Lit c) = []"
| "groups Dot = []"
| "groups WhiteSpace = []"
| "groups Digit = []"
| "groups (OneOf cs) = []"
| "groups LineStart = []"
| "groups (Seq a b) = groups a @ groups b"
| "groups (Alt a b) = groups a @ groups b"
| "groups (Opt a) = groups a"
| "groups (Star a) = groups a"
| "groups (LazyStar a) = groups a"
| "groups (Plus a) = groups a"
| "groups (Group k a) = k # groups a"

definition clear_captures :: "nat list \<Rightarrow> match_state \<Rightarrow> match_state" where
  "clear_captures ks x = x\<lparr>captures := filter (\<lambda>(k, s). k \<notin> set ks) (captures x)\<rparr>"

definition set_capture :: "nat \<Rightarrow> match_state \<Rightarrow> match_state \<Rightarrow> match_state" where
  "set_capture k x y =
     y\<lparr>captures := (k, take (endIndex y - endIndex x) (rest x)) # filter (\<lambda>(j, s). j \<noteq> k) (captures y)\<rparr>"

definition char_matcher :: "(char \<Rightarrow> bool) \<Rightarrow> match_state \<Rightarrow> match_state list" where
  "char_matcher accepts x =
     (case rest x of
        [] \<Rightarrow> []
      | d # ds \<Rightarrow> if accepts d then [x\<lparr>endIndex := Suc (endIndex x), rest := ds\<rparr>] else [])"

text \<open>
  \<open>matcher r x\<close> lists the states in which a match of \<open>r\<close> from \<open>x\<close> can end, in
  the order in which backtracking tries them. A greedy repetition tries another round
  before stopping, a lazy one stops before trying another round; a round that consumed
  nothing ends the repetition.
\<close>

function repeat_greedy :: "(match_state \<Rightarrow> match_state list) \<Rightarrow> match_state \<Rightarrow> match_state list" where
  "repeat_greedy m x =
     concat (map (repeat_greedy m) (filter (\<lambda>y. length (rest y) < length (rest x)) (m x))) @ [x]"
  by pat_completeness auto
termination
  by (relation "measure (\<lambda>(m, x). length (rest x))") auto

function repeat_lazy :: "(match_state \<Rightarrow> match_state list) \<Rightarrow> match_state \<Rightarrow> match_state list" where
  "repeat_lazy m x =
     x # concat (map (repeat_lazy m) (filter (\<lambda>y. length (rest y) < length (rest x)) (m x)))"
  by pat_completeness auto
termination
  by (relation "measure (\<lambda>(m, x). length (rest x))") auto

declare repeat_greedy.simps [simp del] repeat_lazy.simps [simp del]

primrec matcher :: "regex \<Rightarrow> match_state \<Rightarrow> match_state list" where
  "matcher Empty x = [x]"
| "matcher (Lit c) x = char_matcher (\<lambda>d. d = c) x"
| "matcher Dot x = char_matcher (\<lambda>d. \<not> isLineTerminator d) x"
| "matcher WhiteSpace x = char_matcher isWhiteSpace x"
| "matcher Digit x = char_matcher isDigit x"
| "matcher (OneOf cs) x = char_matcher (\<lambda>d. d \<in> set cs) x"
| "matcher LineStart x = (if endIndex x = 0 then [x] else [])"
| "matcher (Seq a b) x = concat (map (matcher b) (matcher a x))"
| "matcher (Alt a b) x = matcher a x @ matcher b x"
| "matcher (Opt a) x =
     filter (\<lambda>y. endIndex y \<noteq> endIndex x) (matcher a (clear_captures (groups a) x)) @ [x]"
| "matcher (Star a) x = repeat_greedy (\<lambda>x. matcher a (clear_captures (groups a) x)) x"
| "matcher (LazyStar a) x = repeat_lazy (\<lambda>x. matcher a (clear_captures (groups a) x)) x"
| "matcher (Plus a) x =
     concat (map (repeat_greedy (\<lambda>x. matcher a (clear_captures (groups a) x)))
               (matcher a (clear_captures (groups a) x)))"
| "matcher (Group k a) x = map (set_capture k x) (matcher a x)"

text \<open>
  \<^verbatim>\<open>exec\<close> on a global pattern starts at \<^verbatim>\<open>lastIndex\<close>, tries each start
  index up to the end of the input, and answers with the first match of the first
  index that has one; its end index is the next \<^verbatim>\<open>lastIndex\<close>. No match is
  \<^verbatim>\<open>null\<close>.
\<close>

fun try_from :: "regex \<Rightarrow> string \<Rightarrow> nat \<Rightarrow> match_state option" where
  "try_from r str i =
     (case matcher r \<lparr>endIndex = i, rest = str, captures = []\<rparr> of
        y # ys \<Rightarrow> Some y
      | [] \<Rightarrow> (case str of [] \<Rightarrow> None | d # ds \<Rightarrow> try_from r ds (Suc i)))"

declare try_from.simps [simp del]

definition regex_exec :: "regex \<Rightarrow> string \<Rightarrow> nat \<Rightarrow> match_state option" where
  "regex_exec r input lastIndex =
     (if lastIndex > length input then None else try_from r (drop lastIndex input) lastIndex)"

subsection \<open>What a match consumes\<close>

definition consumed :: "match_state \<Rightarrow> match_state \<Rightarrow> string \<Rightarrow> bool" where
  "consumed x y w = (rest x = w @ rest y \<and> endIndex y = endIndex x + length w)"

lemma consumed_refl: "consumed x x []"
  by (simp add: consumed_def)

lemma consumed_trans: "consumed x y v \<Longrightarrow> consumed y z w \<Longrightarrow> consumed x z (v @ w)"
  by (simp add: consumed_def)

lemma consumed_length: "consumed x y w \<Longrightarrow> length (rest x) = length w + length (rest y)"
  by (simp add: consumed_def)

lemma consumed_clear [simp]: "consumed (clear_captures ks x) y w = consumed x y w"
  by (simp add: consumed_def clear_captures_def)

lemma consumed_set_capture [simp]: "consumed x (set_capture k x' y) w = consumed x y w"
  by (simp add: consumed_def set_capture_def)

lemma consumed_refl_ex: "\<exists>w. consumed x x w"
  using consumed_refl by blast

lemma char_matcher_consumed:
  assumes "y \<in> set (char_matcher P x)"
  shows "\<exists>d. P d \<and> consumed x y [d] \<and> captures y = captures x"
proof (cases "rest x")
  case Nil
  with assms show ?thesis by (simp add: char_matcher_def)
next
  case (Cons d ds)
  show ?thesis
  proof (cases "P d")
    case True
    with Cons assms have "y = x\<lparr>endIndex := Suc (endIndex x), rest := ds\<rparr>"
      by (simp add: char_matcher_def)
    with Cons True show ?thesis by (intro exI [of _ d]) (simp add: consumed_def)
  next
    case False
    with Cons assms show ?thesis by (simp add: char_matcher_def)
  qed
qed

lemma repeat_greedy_consumed:
  "(\<And>x y. y \<in> set (m x) \<Longrightarrow> \<exists>w. consumed x y w) \<Longrightarrow> y \<in> set (repeat_greedy m x)
   \<Longrightarrow> \<exists>w. consumed x y w"
proof (induction m x arbitrary: y rule: repeat_greedy.induct)
  case (1 m x)
  from "1.prems"(2) consider "y = x"
    | z where "z \<in> set (m x)" "length (rest z) < length (rest x)" "y \<in> set (repeat_greedy m z)"
    by (subst (asm) repeat_greedy.simps) auto
  then show ?case
  proof cases
    case 1
    then show ?thesis using consumed_refl_ex by blast
  next
    case 2
    from "1.IH" [of z y] 2 "1.prems"(1) obtain w where "consumed z y w" by auto
    moreover from "1.prems"(1) [OF 2(1)] obtain v where "consumed x z v" by blast
    ultimately show ?thesis using consumed_trans by blast
  qed
qed

lemma repeat_lazy_consumed:
  "(\<And>x y. y \<in> set (m x) \<Longrightarrow> \<exists>w. consumed x y w) \<Longrightarrow> y \<in> set (repeat_lazy m x)
   \<Longrightarrow> \<exists>w. consumed x y w"
proof (induction m x arbitrary: y rule: repeat_lazy.induct)
  case (1 m x)
  from "1.prems"(2) consider "y = x"
    | z where "z \<in> set (m x)" "length (rest z) < length (rest x)" "y \<in> set (repeat_lazy m z)"
    by (subst (asm) repeat_lazy.simps) auto
  then show ?case
  proof cases
    case 1
    then show ?thesis using consumed_refl_ex by blast
  next
    case 2
    from "1.IH" [of z y] 2 "1.prems"(1) obtain w where "consumed z y w" by auto
    moreover from "1.prems"(1) [OF 2(1)] obtain v where "consumed x z v" by blast
    ultimately show ?thesis using consumed_trans by blast
  qed
qed

lemma matcher_consumed: "y \<in> set (matcher r x) \<Longrightarrow> \<exists>w. consumed x y w"
proof (induction r arbitrary: x y)
  case Empty
  then show ?case using consumed_refl_ex by simp
next
  case (Lit c)
  then show ?case by (auto dest!: char_matcher_consumed)
next
  case Dot
  then show ?case by (auto dest!: char_matcher_consumed)
next
  case WhiteSpace
  then show ?case by (auto dest!: char_matcher_consumed)
next
  case Digit
  then show ?case by (auto dest!: char_matcher_consumed)
next
  case (OneOf cs)
  then show ?case by (auto dest!: char_matcher_consumed)
next
  case LineStart
  then show ?case using consumed_refl_ex by (simp split: if_splits)
next
  case (Seq a b)
  from Seq.prems obtain z where z: "z \<in> set (matcher a x)" "y \<in> set (matcher b z)"
    by auto
  from Seq.IH(1) [OF z(1)] Seq.IH(2) [OF z(2)] show ?case
    using consumed_trans by blast
next
  case (Alt a b)
  from Alt.prems have "y \<in> set (matcher a x) \<or> y \<in> set (matcher b x)"
    by simp
  then show ?case using Alt.IH by blast
next
  case (Opt a)
  from Opt.prems have "y = x \<or> y \<in> set (matcher a (clear_captures (groups a) x))"
    by (simp, blast)
  then show ?case
  proof
    assume "y = x" then show ?thesis using consumed_refl_ex by blast
  next
    assume "y \<in> set (matcher a (clear_captures (groups a) x))"
    from Opt.IH [OF this] show ?thesis by simp
  qed
next
  case (Star a)
  have m: "\<And>x y. y \<in> set (matcher a (clear_captures (groups a) x)) \<Longrightarrow> \<exists>w. consumed x y w"
    using Star.IH [of _ "clear_captures (groups a) _"] by simp
  from Star.prems show ?case
    using repeat_greedy_consumed [of "\<lambda>x. matcher a (clear_captures (groups a) x)" y x, OF m]
    by simp
next
  case (LazyStar a)
  have m: "\<And>x y. y \<in> set (matcher a (clear_captures (groups a) x)) \<Longrightarrow> \<exists>w. consumed x y w"
    using LazyStar.IH [of _ "clear_captures (groups a) _"] by simp
  from LazyStar.prems show ?case
    using repeat_lazy_consumed [of "\<lambda>x. matcher a (clear_captures (groups a) x)" y x, OF m]
    by simp
next
  case (Plus a)
  have m: "\<And>x y. y \<in> set (matcher a (clear_captures (groups a) x)) \<Longrightarrow> \<exists>w. consumed x y w"
    using Plus.IH [of _ "clear_captures (groups a) _"] by simp
  from Plus.prems obtain z where z: "z \<in> set (matcher a (clear_captures (groups a) x))"
    "y \<in> set (repeat_greedy (\<lambda>x. matcher a (clear_captures (groups a) x)) z)"
    by auto
  from m [OF z(1)] obtain v where v: "consumed x z v" by blast
  from repeat_greedy_consumed [of "\<lambda>x. matcher a (clear_captures (groups a) x)" y z, OF m z(2)]
  obtain w where "consumed z y w" by blast
  with v show ?case using consumed_trans by blast
next
  case (Group k a)
  from Group.prems obtain z where z: "z \<in> set (matcher a x)" "y = set_capture k x z"
    by auto
  from Group.IH [OF z(1)] z(2) show ?case by simp
qed

text \<open>
  ECMAScript ends a repetition whose last round consumed nothing by comparing the end
  indices. The repetitions above compare the lengths of what is left of the input;
  for the states a matcher returns the two tests agree.
\<close>

lemma matcher_progress:
  assumes "y \<in> set (matcher r x)"
  shows "(length (rest y) < length (rest x)) = (endIndex y \<noteq> endIndex x)"
proof -
  from matcher_consumed [OF assms] obtain w where "consumed x y w" by blast
  then show ?thesis by (auto simp: consumed_def)
qed

primrec consumes :: "regex \<Rightarrow> bool" where
  "consumes Empty = False"
| "consumes (Lit c) = True"
| "consumes Dot = True"
| "consumes WhiteSpace = True"
| "consumes Digit = True"
| "consumes (OneOf cs) = True"
| "consumes LineStart = False"
| "consumes (Seq a b) = (consumes a \<or> consumes b)"
| "consumes (Alt a b) = (consumes a \<and> consumes b)"
| "consumes (Opt a) = False"
| "consumes (Star a) = False"
| "consumes (LazyStar a) = False"
| "consumes (Plus a) = consumes a"
| "consumes (Group k a) = consumes a"

lemma matcher_consumes:
  "consumes r \<Longrightarrow> y \<in> set (matcher r x) \<Longrightarrow> \<exists>w. w \<noteq> [] \<and> consumed x y w"
proof (induction r arbitrary: x y)
  case (Seq a b)
  from Seq.prems obtain z where z: "z \<in> set (matcher a x)" "y \<in> set (matcher b z)"
    by auto
  from matcher_consumed [OF z(1)] obtain v where v: "consumed x z v" by blast
  from matcher_consumed [OF z(2)] obtain w where w: "consumed z y w" by blast
  from Seq.prems(1) have "consumes a \<or> consumes b" by simp
  then show ?case
  proof
    assume "consumes a"
    from Seq.IH(1) [OF this z(1)] obtain v' where "v' \<noteq> []" "consumed x z v'" by blast
    with w show ?thesis using consumed_trans [of x z v' y w] by blast
  next
    assume "consumes b"
    from Seq.IH(2) [OF this z(2)] obtain w' where "w' \<noteq> []" "consumed z y w'" by blast
    with v show ?thesis using consumed_trans [of x z v y w'] by blast
  qed
next
  case (Alt a b)
  from Alt.prems(2) have "y \<in> set (matcher a x) \<or> y \<in> set (matcher b x)"
    by simp
  then show ?case
    using Alt.IH Alt.prems(1) by auto
next
  case (Plus a)
  let ?m = "\<lambda>x. matcher a (clear_captures (groups a) x)"
  from Plus.prems obtain z where z: "z \<in> set (?m x)" "y \<in> set (repeat_greedy ?m z)"
    by auto
  from Plus.IH [of z "clear_captures (groups a) x"] Plus.prems(1) z(1)
  obtain v where v: "v \<noteq> []" "consumed x z v" by auto
  have m: "\<And>x y. y \<in> set (?m x) \<Longrightarrow> \<exists>w. consumed x y w"
    using matcher_consumed [of _ a "clear_captures (groups a) _"] by simp
  from repeat_greedy_consumed [of ?m y z, OF m z(2)] obtain w where "consumed z y w" by blast
  with v show ?case using consumed_trans [of x z v y w] by blast
next
  case (Group k a)
  from Group.prems(2) obtain z where z: "z \<in> set (matcher a x)" "y = set_capture k x z"
    by auto
  from Group.IH [OF _ z(1)] Group.prems(1) z(2) show ?case by simp
qed (auto dest!: char_matcher_consumed)

lemma try_from_Some:
  "try_from r str i = Some y
   \<Longrightarrow> \<exists>pre str' . str = pre @ str' \<and> y \<in> set (matcher r \<lparr>endIndex = i + length pre, rest = str', captures = []\<rparr>)"
proof (induction r str i rule: try_from.induct)
  case (1 r str i)
  show ?case
  proof (cases "matcher r \<lparr>endIndex = i, rest = str, captures = []\<rparr>")
    case (Cons y' ys)
    with "1.prems" have "y = y'" by (subst (asm) try_from.simps) simp
    with Cons show ?thesis by (intro exI [of _ "[]"] exI [of _ str]) simp
  next
    case Nil
    show ?thesis
    proof (cases str)
      case Nil': Nil
      with Nil "1.prems" show ?thesis by (subst (asm) try_from.simps) simp
    next
      case (Cons d ds)
      with Nil "1.prems" have "try_from r ds (Suc i) = Some y"
        by (subst (asm) try_from.simps) simp
      from "1.IH" [OF Nil Cons this] obtain pre str' where
        "ds = pre @ str'" "y \<in> set (matcher r \<lparr>endIndex = Suc i + length pre, rest = str', captures = []\<rparr>)"
        by blast
      with Cons show ?thesis
        by (intro exI [of _ "d # pre"] exI [of _ str']) simp
    qed
  qed
qed

lemma regex_exec_advances:
  assumes "consumes r" and "regex_exec r input lastIndex = Some y"
  shows "lastIndex < endIndex y" and "endIndex y \<le> length input"
    and "rest y = drop (endIndex y) input"
proof -
  from assms(2) have li: "lastIndex \<le> length input"
    and t: "try_from r (drop lastIndex input) lastIndex = Some y"
    by (simp_all add: regex_exec_def split: if_splits)
  from try_from_Some [OF t] obtain pre str' where
    p: "drop lastIndex input = pre @ str'"
    and y: "y \<in> set (matcher r \<lparr>endIndex = lastIndex + length pre, rest = str', captures = []\<rparr>)"
    by blast
  from matcher_consumes [OF assms(1) y] obtain w where
    w: "w \<noteq> []" "str' = w @ rest y" "endIndex y = lastIndex + length pre + length w"
    by (auto simp: consumed_def)
  from w show "lastIndex < endIndex y" by simp
  have "length (drop lastIndex input) = length pre + length w + length (rest y)"
    using p w by simp
  with li w show "endIndex y \<le> length input" by simp
  have "input = take lastIndex input @ pre @ w @ rest y"
    using p w by (metis append_take_drop_id)
  moreover have "length (take lastIndex input @ pre @ w) = endIndex y"
    using li w by simp
  ultimately show "rest y = drop (endIndex y) input"
    by (metis append.assoc append_eq_conv_conj)
qed

subsection \<open>The pattern\<close>

text \<open>
  The pattern of \<^verbatim>\<open>parseCoordinatesFromText\<close>, flags \<^verbatim>\<open>g\<close> and \<^verbatim>\<open>i\<close>, piece
  by piece: a start of text, a newline or a sentence end followed by white space;
  an optional \<^verbatim>\<open>**\<close>; group 1, a lazy run of any characters; an optional
  \<^verbatim>\<open>**\<close>; a lazy run of any characters; an opening parenthesis; \<^verbatim>\<open>lat:\<close> or
  \<^verbatim>\<open>latitude:\<close>; white space; group 2, a number (with group 3 for its fraction); a
  comma; white space; \<^verbatim>\<open>lng:\<close> or \<^verbatim>\<open>longitude:\<close>; white space; group 4, a
  number (with group 5 for its fraction); a closing parenthesis. Under the flag
  \<^verbatim>\<open>i\<close> a letter of the pattern matches itself and its other case, which is how
  the four words are written here.
\<close>

definition literal :: "string \<Rightarrow> regex" where
  "literal cs = foldr (\<lambda>c r. Seq (Lit c) r) cs Empty"

definition either_case :: "string \<Rightarrow> string \<Rightarrow> regex" where
  "either_case lower upper = foldr (\<lambda>(c, d) r. Seq (OneOf [c, d]) r) (zip lower upper) Empty"

definition number_pattern :: "nat \<Rightarrow> regex" where
  "number_pattern k =
     Seq (Opt (Lit CHR ''-''))
       (Seq (Plus Digit) (Opt (Group k (Seq (Lit CHR ''.'') (Plus Digit)))))"

definition coordinate_regex :: regex where
  "coordinate_regex =
     Seq (Alt LineStart (Alt (Lit CHR 0x0A) (Seq (OneOf ''.!?'') (Plus WhiteSpace))))
    (Seq (Opt (literal ''**''))
    (Seq (Group 1 (LazyStar Dot))
    (Seq (Opt (literal ''**''))
    (Seq (LazyStar Dot)
    (Seq (Lit CHR ''('')
    (Seq (Alt (either_case ''lat:'' ''LAT:'') (either_case ''latitude:'' ''LATITUDE:''))
    (Seq (Star WhiteSpace)
    (Seq (Group 2 (number_pattern 3))
    (Seq (Lit CHR '','')
    (Seq (Star WhiteSpace)
    (Seq (Alt (either_case ''lng:'' ''LNG:'') (either_case ''longitude:'' ''LONGITUDE:''))
    (Seq (Star WhiteSpace)
    (Seq (Group 4 (number_pattern 5))
         (Lit CHR '')''))))))))))))))"

lemma consumes_coordinate_regex: "consumes coordinate_regex"
  by (simp add: coordinate_regex_def)

subsection \<open>parseCoordinatesFromText\<close>

definition trim :: "string \<Rightarrow> string" where
  "trim s = rev (dropWhile isWhiteSpace (rev (dropWhile isWhiteSpace s)))"

text \<open>
  The three string operations that clean the name:
  \<^verbatim>\<open>.replace(/^[*-]\s*/, '')\<close> drops one leading asterisk or hyphen and the white
  space after it, \<^verbatim>\<open>.replace(/\*+/g, '')\<close> drops every asterisk, and
  \<^verbatim>\<open>.split(/[.!?]/).pop()\<close> keeps what follows the last full stop, exclamation
  mark or question mark.
\<close>

definition strip_bullet :: "string \<Rightarrow> string" where
  "strip_bullet s =
     (case s of
        [] \<Rightarrow> []
      | c # cs \<Rightarrow> if c = CHR ''*'' \<or> c = CHR ''-'' then dropWhile isWhiteSpace cs else s)"

definition strip_asterisks :: "string \<Rightarrow> string" where
  "strip_asterisks s = filter (\<lambda>c. c \<noteq> CHR ''*'') s"

definition last_sentence :: "string \<Rightarrow> string" where
  "last_sentence s = rev (takeWhile (\<lambda>c. c \<notin> set ''.!?'') (rev s))"

definition cleanName :: "string \<Rightarrow> string" where
  "cleanName rawName =
     (let n = trim (last_sentence (strip_asterisks (strip_bullet rawName)))
      in if n = [] then ''Unknown Location'' else n)"

definition digit_value :: "char \<Rightarrow> nat" where
  "digit_value c = of_char c - 48"

definition digits_value :: "string \<Rightarrow> nat" where
  "digits_value ds = foldl (\<lambda>n c. 10 * n + digit_value c) 0 ds"

definition parseFloat :: "string \<Rightarrow> number" where
  "parseFloat str =
     (let s = dropWhile isWhiteSpace str;
          negative = (s \<noteq> [] \<and> hd s = CHR ''-'');
          unsigned = (if s \<noteq> [] \<and> (hd s = CHR ''-'' \<or> hd s = CHR ''+'') then tl s else s);
          whole = takeWhile isDigit unsigned;
          after = dropWhile isDigit unsigned;
          fraction = (if after \<noteq> [] \<and> hd after = CHR ''.'' then takeWhile isDigit (tl after) else [])
      in if whole = [] \<and> fraction = [] then NaN
         else Num ((if negative then - 1 else 1)
                   * (real (digits_value whole) + real (digits_value fraction) / 10 ^ length fraction)))"

type_synonym generator = "nat \<Rightarrow> string"

definition push_place :: "match_state \<Rightarrow> string \<Rightarrow> Place list \<times> generator \<Rightarrow> Place list \<times> generator" where
  "push_place y cleaned acc =
     (case (map_of (captures y) 2, map_of (captures y) 4) of
        (Some m2, Some m4) \<Rightarrow>
          if m2 \<noteq> [] \<and> m4 \<noteq> [] then
            (let lat_v = parseFloat m2; lng_v = parseFloat m4
             in if \<not> isNaN lat_v \<and> \<not> isNaN lng_v
                then (fst acc @ [\<lparr>place_id = snd acc 0, name = cleaned,
                                   coordinate = \<lparr>lat = lat_v, lng = lng_v\<rparr>,
                                   description = None\<rparr>],
                      \<lambda>k. snd acc (Suc k))
                else acc)
          else acc
      | _ \<Rightarrow> acc)"

lemma coordinate_regex_measure:
  "regex_exec coordinate_regex input lastIndex = Some y
   \<Longrightarrow> Suc (length input) - endIndex y < Suc (length input) - lastIndex"
  using regex_exec_advances [OF consumes_coordinate_regex, of input lastIndex y] by simp

function parse_loop :: "string \<Rightarrow> nat \<Rightarrow> Place list \<times> generator \<Rightarrow> error + Place list \<times> generator" where
  "parse_loop input lastIndex acc =
     (case regex_exec coordinate_regex input lastIndex of
        None \<Rightarrow> Inr acc
      | Some y \<Rightarrow>
          (case map_of (captures y) 1 of
             None \<Rightarrow> Inl TypeError
           | Some m1 \<Rightarrow> parse_loop input (endIndex y) (push_place y (cleanName (trim m1)) acc)))"
  by pat_completeness auto
termination
  by (relation "measure (\<lambda>(input, lastIndex, acc). Suc (length input) - lastIndex)")
     (auto dest: coordinate_regex_measure)

declare parse_loop.simps [simp del]

definition parseCoordinatesFromText :: "generator \<Rightarrow> string \<Rightarrow> error + Place list \<times> generator" where
  "parseCoordinatesFromText random input = parse_loop input 0 ([], random)"

subsection \<open>sendMessageToGemini\<close>

text \<open>
  The transport (\<^verbatim>\<open>ai.models.generateContent\<close>) is outside the repository: its
  outcome is an argument, either the error it threw or the response, of which the code
  reads the text and the grounding chunks. The text falls back to a fixed sentence when
  it is missing or empty; a chunk contributes a source when it has a \<^verbatim>\<open>web\<close> part.
  An error of the transport, and one raised while extracting, leaves through the
  \<^verbatim>\<open>catch\<close> block, which logs and rethrows.
\<close>

record grounding_chunk =
  web :: "GroundingSource option"

record generated =
  generated_text :: "string option"
  groundingChunks :: "grounding_chunk list option"

record Response =
  response_text :: string
  response_places :: "Place list"
  response_sources :: "GroundingSource list"

definition sendMessageToGemini ::
  "string option \<Rightarrow> generator \<Rightarrow> error + generated \<Rightarrow> error + Response \<times> generator" where
  "sendMessageToGemini apiKey random transport =
     (if apiKey = None \<or> apiKey = Some [] then Inl ApiKeyNotFound
      else
        (case transport of
           Inl e \<Rightarrow> Inl e
         | Inr response \<Rightarrow>
             (let answer = (case generated_text response of
                              None \<Rightarrow> ''No specific locations found.''
                            | Some t \<Rightarrow> if t = [] then ''No specific locations found.'' else t);
                  cited = (case groundingChunks response of
                             None \<Rightarrow> []
                           | Some chunks \<Rightarrow> List.map_filter web chunks)
              in case parseCoordinatesFromText random answer of
                   Inl e \<Rightarrow> Inl e
                 | Inr (found, random') \<Rightarrow>
                     Inr (\<lparr>response_text = answer, response_places = found, response_sources = cited\<rparr>,
                          random'))))"

subsection \<open>A backtracking machine\<close>

text \<open>
  The list of all matches is a convenient definition and a poor way to compute the
  first one. The machine below runs the pattern depth first with an explicit stack of
  what is still to be matched, and stops at the first success, as a backtracking
  matcher does. Its fuel bounds the depth of the search; an answer \<open>Some r\<close> is
  definite, \<open>None\<close> says the fuel ran out. It serves to evaluate \<open>matcher\<close> on a
  given input and is proved to agree with it.
\<close>

datatype frame =
    Match regex
  | Capture nat match_state
  | Moved nat

fun frames :: "frame list \<Rightarrow> match_state \<Rightarrow> match_state list" where
  "frames [] x = [x]"
| "frames (Match r # k) x = concat (map (frames k) (matcher r x))"
| "frames (Capture g x0 # k) y = frames k (set_capture g x0 y)"
| "frames (Moved e # k) y = (if endIndex y \<noteq> e then frames k y else [])"

definition first :: "match_state list \<Rightarrow> match_state option" where
  "first ys = (case ys of [] \<Rightarrow> None | y # zs \<Rightarrow> Some y)"

definition char_step ::
  "(char \<Rightarrow> bool) \<Rightarrow> match_state \<Rightarrow> (match_state \<Rightarrow> match_state option option) \<Rightarrow> match_state option option" where
  "char_step accepts x continue =
     (case rest x of
        [] \<Rightarrow> Some None
      | d # ds \<Rightarrow> if accepts d then continue (x\<lparr>endIndex := Suc (endIndex x), rest := ds\<rparr>) else Some None)"

fun search :: "nat \<Rightarrow> frame list \<Rightarrow> match_state \<Rightarrow> match_state option option" where
  "search 0 k x = None"
| "search (Suc n) [] x = Some (Some x)"
| "search (Suc n) (Capture g x0 # k) y = search n k (set_capture g x0 y)"
| "search (Suc n) (Moved e # k) y = (if endIndex y \<noteq> e then search n k y else Some None)"
| "search (Suc n) (Match Empty # k) x = search n k x"
| "search (Suc n) (Match (Lit c) # k) x = char_step (\<lambda>d. d = c) x (search n k)"
| "search (Suc n) (Match Dot # k) x = char_step (\<lambda>d. \<not> isLineTerminator d) x (search n k)"
| "search (Suc n) (Match WhiteSpace # k) x = char_step isWhiteSpace x (search n k)"
| "search (Suc n) (Match Digit # k) x = char_step isDigit x (search n k)"
| "search (Suc n) (Match (OneOf cs) # k) x = char_step (\<lambda>d. d \<in> set cs) x (search n k)"
| "search (Suc n) (Match LineStart # k) x = (if endIndex x = 0 then search n k x else Some None)"
| "search (Suc n) (Match (Seq a b) # k) x = search n (Match a # Match b # k) x"
| "search (Suc n) (Match (Alt a b) # k) x =
     (case search n (Match a # k) x of
        None \<Rightarrow> None
      | Some (Some z) \<Rightarrow> Some (Some z)
      | Some None \<Rightarrow> search n (Match b # k) x)"
| "search (Suc n) (Match (Opt a) # k) x =
     (case search n (Match a # Moved (endIndex x) # k) (clear_captures (groups a) x) of
        None \<Rightarrow> None
      | Some (Some z) \<Rightarrow> Some (Some z)
      | Some None \<Rightarrow> search n k x)"
| "search (Suc n) (Match (Star a) # k) x =
     (case search n (Match a # Moved (endIndex x) # Match (Star a) # k) (clear_captures (groups a) x) of
        None \<Rightarrow> None
      | Some (Some z) \<Rightarrow> Some (Some z)
      | Some None \<Rightarrow> search n k x)"
| "search (Suc n) (Match (LazyStar a) # k) x =
     (case search n k x of
        None \<Rightarrow> None
      | Some (Some z) \<Rightarrow> Some (Some z)
      | Some None \<Rightarrow>
          search n (Match a # Moved (endIndex x) # Match (LazyStar a) # k) (clear_captures (groups a) x))"
| "search (Suc n) (Match (Plus a) # k) x =
     search n (Match a # Match (Star a) # k) (clear_captures (groups a) x)"
| "search (Suc n) (Match (Group g a) # k) x = search n (Match a # Capture g x # k) x"

lemma first_Nil [simp]: "first [] = None"
  by (simp add: first_def)

lemma first_Cons [simp]: "first (y # ys) = Some y"
  by (simp add: first_def)

lemma first_append: "first (xs @ ys) = (case first xs of Some y \<Rightarrow> Some y | None \<Rightarrow> first ys)"
  by (cases xs) simp_all

lemma concat_map_moved:
  assumes "\<And>y. y \<in> set ys \<Longrightarrow> (length (rest y) < length (rest x)) = (endIndex y \<noteq> e)"
  shows "concat (map f (filter (\<lambda>y. length (rest y) < length (rest x)) ys))
           = concat (map (\<lambda>y. if endIndex y \<noteq> e then f y else []) ys)"
  using assms by (induction ys) auto

lemma concat_map_filter_if:
  "concat (map f (filter P ys)) = concat (map (\<lambda>y. if P y then f y else []) ys)"
  by (induction ys) auto

lemma concat_map_concat:
  "concat (map f (concat (map g xs))) = concat (map (\<lambda>x. concat (map f (g x))) xs)"
  by (induction xs) auto

lemma frames_Match_fun: "frames (Match r # k) = (\<lambda>x. concat (map (frames k) (matcher r x)))"
  by (rule ext) simp

lemma frames_Capture_fun: "frames (Capture g x0 # k) = (\<lambda>y. frames k (set_capture g x0 y))"
  by (rule ext) simp

lemma frames_Moved_fun: "frames (Moved e # k) = (\<lambda>y. if endIndex y \<noteq> e then frames k y else [])"
  by (rule ext) simp

lemma frames_char:
  "first (concat (map (frames k) (char_matcher P x)))
     = (case rest x of [] \<Rightarrow> None
        | d # ds \<Rightarrow> if P d then first (frames k (x\<lparr>endIndex := Suc (endIndex x), rest := ds\<rparr>)) else None)"
  by (cases "rest x") (simp_all add: char_matcher_def)

lemma progress_clear:
  "y \<in> set (matcher a (clear_captures ks x))
   \<Longrightarrow> (length (rest y) < length (rest x)) = (endIndex y \<noteq> endIndex x)"
  using matcher_progress [of y a "clear_captures ks x"] by (simp add: clear_captures_def)

lemma frames_Star:
  "frames (Match (Star a) # k) x
     = concat (map (frames (Moved (endIndex x) # Match (Star a) # k)) (matcher a (clear_captures (groups a) x)))
       @ frames k x"
proof -
  let ?m = "\<lambda>x. matcher a (clear_captures (groups a) x)"
  have "frames (Match (Star a) # k) x = concat (map (frames k) (repeat_greedy ?m x))"
    by simp
  also have "\<dots> = concat (map (frames k) (concat (map (repeat_greedy ?m)
                        (filter (\<lambda>y. length (rest y) < length (rest x)) (?m x))))) @ frames k x"
    by (subst repeat_greedy.simps) simp
  also have "concat (map (frames k) (concat (map (repeat_greedy ?m)
                        (filter (\<lambda>y. length (rest y) < length (rest x)) (?m x)))))
           = concat (map (\<lambda>y. concat (map (frames k) (repeat_greedy ?m y)))
                        (filter (\<lambda>y. length (rest y) < length (rest x)) (?m x)))"
    by (rule concat_map_concat)
  also have "\<dots> = concat (map (\<lambda>y. if endIndex y \<noteq> endIndex x
                                     then concat (map (frames k) (repeat_greedy ?m y)) else []) (?m x))"
    by (rule concat_map_moved) (rule progress_clear)
  finally show ?thesis by (simp add: frames_Match_fun frames_Moved_fun cong: if_cong)
qed

lemma frames_LazyStar:
  "frames (Match (LazyStar a) # k) x
     = frames k x
       @ concat (map (frames (Moved (endIndex x) # Match (LazyStar a) # k)) (matcher a (clear_captures (groups a) x)))"
proof -
  let ?m = "\<lambda>x. matcher a (clear_captures (groups a) x)"
  have "frames (Match (LazyStar a) # k) x = concat (map (frames k) (repeat_lazy ?m x))"
    by simp
  also have "\<dots> = frames k x @ concat (map (frames k) (concat (map (repeat_lazy ?m)
                        (filter (\<lambda>y. length (rest y) < length (rest x)) (?m x)))))"
    by (subst repeat_lazy.simps) simp
  also have "concat (map (frames k) (concat (map (repeat_lazy ?m)
                        (filter (\<lambda>y. length (rest y) < length (rest x)) (?m x)))))
           = concat (map (\<lambda>y. concat (map (frames k) (repeat_lazy ?m y)))
                        (filter (\<lambda>y. length (rest y) < length (rest x)) (?m x)))"
    by (rule concat_map_concat)
  also have "\<dots> = concat (map (\<lambda>y. if endIndex y \<noteq> endIndex x
                                     then concat (map (frames k) (repeat_lazy ?m y)) else []) (?m x))"
    by (rule concat_map_moved) (rule progress_clear)
  finally show ?thesis by (simp add: frames_Match_fun frames_Moved_fun cong: if_cong)
qed

lemma frames_Opt:
  "frames (Match (Opt a) # k) x
     = concat (map (frames (Moved (endIndex x) # k)) (matcher a (clear_captures (groups a) x)))
       @ frames k x"
  by (simp add: concat_map_filter_if frames_Moved_fun)

lemma frames_Plus:
  "frames (Match (Plus a) # k) x
     = frames (Match a # Match (Star a) # k) (clear_captures (groups a) x)"
  by (simp add: concat_map_concat frames_Match_fun)

lemma frames_Seq: "frames (Match (Seq a b) # k) x = frames (Match a # Match b # k) x"
  by (simp add: concat_map_concat frames_Match_fun)

lemma frames_Group: "frames (Match (Group g a) # k) x = frames (Match a # Capture g x # k) x"
  by (simp add: frames_Capture_fun comp_def)

lemma frames_Alt:
  "frames (Match (Alt a b) # k) x = frames (Match a # k) x @ frames (Match b # k) x"
  by simp

lemma first_frames_char:
  "first (frames (Match r # k) x) = first (concat (map (frames k) (matcher r x)))"
  by simp

lemma char_step_first:
  assumes "char_step P x c = Some res"
    and "\<And>y res. c y = Some res \<Longrightarrow> res = first (frames k y)"
  shows "res = first (concat (map (frames k) (char_matcher P x)))"
proof (cases "rest x")
  case Nil
  with assms(1) show ?thesis by (simp add: char_step_def char_matcher_def)
next
  case (Cons d ds)
  show ?thesis
  proof (cases "P d")
    case True
    with Cons assms(1) have "c (x\<lparr>endIndex := Suc (endIndex x), rest := ds\<rparr>) = Some res"
      by (simp add: char_step_def)
    from assms(2) [OF this] Cons True show ?thesis by (simp add: char_matcher_def)
  next
    case False
    with Cons assms(1) show ?thesis by (simp add: char_step_def char_matcher_def)
  qed
qed

lemma first_orelse:
  assumes "(case r1 of None \<Rightarrow> None | Some None \<Rightarrow> r2 | Some (Some z) \<Rightarrow> Some (Some z)) = Some res"
    and "\<And>res. r1 = Some res \<Longrightarrow> res = first A"
    and "r1 = Some None \<Longrightarrow> (\<And>res. r2 = Some res \<Longrightarrow> res = first B)"
  shows "res = first (A @ B)"
proof (cases r1)
  case None
  with assms(1) show ?thesis by simp
next
  case (Some r)
  show ?thesis
  proof (cases r)
    case None
    with Some assms(1) have r2: "r2 = Some res" by simp
    from Some None assms(2) have "first A = None" by simp
    moreover from assms(3) [OF _ r2] Some None have "res = first B" by simp
    ultimately show ?thesis by (simp add: first_append)
  next
    case (Some z)
    with \<open>r1 = Some r\<close> assms(1) have "res = Some z" by simp
    moreover from \<open>r1 = Some r\<close> Some assms(2) have "first A = Some z" by simp
    ultimately show ?thesis by (simp add: first_append)
  qed
qed

lemma first_orelse_lazy:
  assumes "(case r1 of None \<Rightarrow> None | Some None \<Rightarrow> r2 | Some (Some z) \<Rightarrow> Some (Some z)) = Some res"
    and "\<And>res. r1 = Some res \<Longrightarrow> res = first A"
    and "r1 = Some None \<Longrightarrow> (\<And>res. r2 = Some res \<Longrightarrow> res = first B)"
  shows "res = first (A @ B)"
  using assms by (rule first_orelse)

theorem search_first: "search n k x = Some res \<Longrightarrow> res = first (frames k x)"
proof (induction n k x arbitrary: res rule: search.induct)
  case (1 k x)
  then show ?case by simp
next
  case (2 n x)
  then show ?case by simp
next
  case (3 n g x0 k y)
  then show ?case by simp
next
  case (4 n e k y)
  then show ?case by (simp split: if_splits)
next
  case (5 n k x)
  then show ?case by simp
next
  case (6 n c k x)
  from char_step_first [of "\<lambda>d. d = c" x "search n k" res k] 6 show ?case by simp
next
  case (7 n k x)
  from char_step_first [of "\<lambda>d. \<not> isLineTerminator d" x "search n k" res k] 7 show ?case by simp
next
  case (8 n k x)
  from char_step_first [of isWhiteSpace x "search n k" res k] 8 show ?case by simp
next
  case (9 n k x)
  from char_step_first [of isDigit x "search n k" res k] 9 show ?case by simp
next
  case (10 n cs k x)
  from char_step_first [of "\<lambda>d. d \<in> set cs" x "search n k" res k] 10 show ?case by simp
next
  case (11 n k x)
  then show ?case by (simp split: if_splits)
next
  case (12 n a b k x)
  then show ?case by (simp only: frames_Seq search.simps)
next
  case (13 n a b k x)
  show ?case
    unfolding frames_Alt
    by (rule first_orelse [OF "13.prems" [unfolded search.simps]]) (use "13.IH" in auto)
next
  case (14 n a k x)
  show ?case
    unfolding frames_Opt frames_Match_fun [symmetric]
    by (rule first_orelse [OF "14.prems" [unfolded search.simps]]) (use "14.IH" in auto)
next
  case (15 n a k x)
  show ?case
    unfolding frames_Star frames_Match_fun [symmetric]
    by (rule first_orelse [OF "15.prems" [unfolded search.simps]]) (use "15.IH" in auto)
next
  case (16 n a k x)
  show ?case
    unfolding frames_LazyStar frames_Match_fun [symmetric]
    by (rule first_orelse [OF "16.prems" [unfolded search.simps]]) (use "16.IH" in auto)
next
  case (17 n a k x)
  then show ?case by (simp only: frames_Plus search.simps)
next
  case (18 n g a k x)
  then show ?case by (simp only: frames_Group search.simps)
qed

lemma frames_Nil_fun: "frames [] = (\<lambda>x. [x])"
  by (rule ext) simp

lemma frames_single: "frames [Match r] x = matcher r x"
  by (simp add: frames_Nil_fun)

fun exec_search :: "nat \<Rightarrow> regex \<Rightarrow> string \<Rightarrow> nat \<Rightarrow> match_state option option" where
  "exec_search n r str i =
     (case search n [Match r] \<lparr>endIndex = i, rest = str, captures = []\<rparr> of
        None \<Rightarrow> None
      | Some (Some y) \<Rightarrow> Some (Some y)
      | Some None \<Rightarrow> (case str of [] \<Rightarrow> Some None | d # ds \<Rightarrow> exec_search n r ds (Suc i)))"

declare exec_search.simps [simp del]

lemma exec_search_try_from: "exec_search n r str i = Some res \<Longrightarrow> try_from r str i = res"
proof (induction n r str i rule: exec_search.induct)
  case (1 n r str i)
  let ?x = "\<lparr>endIndex = i, rest = str, captures = []\<rparr>"
  show ?case
  proof (cases "search n [Match r] ?x")
    case None
    with "1.prems" show ?thesis by (subst (asm) exec_search.simps) simp
  next
    case (Some found)
    from search_first [OF Some] have f: "found = first (matcher r ?x)"
      by (simp only: frames_single)
    show ?thesis
    proof (cases found)
      case (Some y)
      with \<open>search n [Match r] ?x = Some found\<close> "1.prems" have "res = Some y"
        by (subst (asm) exec_search.simps) simp
      moreover from f Some obtain ys where "matcher r ?x = y # ys"
        by (cases "matcher r ?x") (simp_all add: first_def)
      then have "try_from r str i = Some y"
        by (subst try_from.simps) simp
      ultimately show ?thesis by simp
    next
      case None
      with f have nil: "matcher r ?x = []" by (simp add: first_def split: list.splits)
      show ?thesis
      proof (cases str)
        case Nil
        with None \<open>search n [Match r] ?x = Some found\<close> "1.prems" nil show ?thesis
          by (subst (asm) exec_search.simps, subst try_from.simps) simp
      next
        case (Cons d ds)
        with None \<open>search n [Match r] ?x = Some found\<close> "1.prems"
        have "exec_search n r ds (Suc i) = Some res"
          by (subst (asm) exec_search.simps) simp
        from "1.IH" [OF \<open>search n [Match r] ?x = Some found\<close> None Cons this] nil Cons
        show ?thesis by (subst try_from.simps) simp
      qed
    qed
  qed
qed

lemma regex_exec_by_search:
  "lastIndex \<le> length input \<Longrightarrow> exec_search n r (drop lastIndex input) lastIndex = Some res
   \<Longrightarrow> regex_exec r input lastIndex = res"
  by (simp add: regex_exec_def exec_search_try_from)

lemma search_numeral: "search (numeral v) k x = search (Suc (pred_numeral v)) k x"
  by (simp add: numeral_eq_Suc)

text \<open>Rewrite rules that run the machine on a given text.\<close>

lemmas search_fuel = search.simps(2-18) [where n = "pred_numeral v", folded numeral_eq_Suc] for v

lemmas search_eval = char_step_def isLineTerminator_def isWhiteSpace_def isDigit_def
  clear_captures_def set_capture_def literal_def either_case_def number_pattern_def coordinate_regex_def
  exec_search.simps search_fuel

subsection \<open>What the groups of the pattern capture\<close>

lemma map_of_filter_fst:
  "map_of (filter (\<lambda>(i, s). P i) caps) j = (if P j then map_of caps j else None)"
  by (induction caps) auto

lemma capture_set_same:
  "map_of (captures (set_capture k x y)) k = Some (take (endIndex y - endIndex x) (rest x))"
  by (simp add: set_capture_def)

lemma capture_set_other: "j \<noteq> k \<Longrightarrow> map_of (captures (set_capture k x y)) j = map_of (captures y) j"
  by (simp add: set_capture_def map_of_filter_fst)

lemma capture_clear: "j \<notin> set ks \<Longrightarrow> map_of (captures (clear_captures ks x)) j = map_of (captures x) j"
  by (simp add: clear_captures_def map_of_filter_fst)

lemma repeat_greedy_rel:
  assumes "\<And>x. R x x" and "\<And>x y z. R x y \<Longrightarrow> R y z \<Longrightarrow> R x z"
  shows "(\<And>x y. y \<in> set (m x) \<Longrightarrow> R x y) \<Longrightarrow> y \<in> set (repeat_greedy m x) \<Longrightarrow> R x y"
proof (induction m x arbitrary: y rule: repeat_greedy.induct)
  case (1 m x)
  from "1.prems"(2) consider "y = x"
    | z where "z \<in> set (m x)" "length (rest z) < length (rest x)" "y \<in> set (repeat_greedy m z)"
    by (subst (asm) repeat_greedy.simps) auto
  then show ?case
  proof cases
    case 1
    then show ?thesis using assms(1) by simp
  next
    case 2
    from "1.IH" [of z y] 2 "1.prems"(1) have "R z y" by auto
    moreover from "1.prems"(1) [OF 2(1)] have "R x z" .
    ultimately show ?thesis using assms(2) by blast
  qed
qed

lemma repeat_lazy_rel:
  assumes "\<And>x. R x x" and "\<And>x y z. R x y \<Longrightarrow> R y z \<Longrightarrow> R x z"
  shows "(\<And>x y. y \<in> set (m x) \<Longrightarrow> R x y) \<Longrightarrow> y \<in> set (repeat_lazy m x) \<Longrightarrow> R x y"
proof (induction m x arbitrary: y rule: repeat_lazy.induct)
  case (1 m x)
  from "1.prems"(2) consider "y = x"
    | z where "z \<in> set (m x)" "length (rest z) < length (rest x)" "y \<in> set (repeat_lazy m z)"
    by (subst (asm) repeat_lazy.simps) auto
  then show ?case
  proof cases
    case 1
    then show ?thesis using assms(1) by simp
  next
    case 2
    from "1.IH" [of z y] 2 "1.prems"(1) have "R z y" by auto
    moreover from "1.prems"(1) [OF 2(1)] have "R x z" .
    ultimately show ?thesis using assms(2) by blast
  qed
qed

lemma matcher_frame:
  "y \<in> set (matcher r x) \<Longrightarrow> j \<notin> set (groups r) \<Longrightarrow> map_of (captures y) j = map_of (captures x) j"
proof (induction r arbitrary: x y)
  case Empty
  then show ?case by simp
next
  case (Lit c)
  then show ?case by (auto dest!: char_matcher_consumed)
next
  case Dot
  then show ?case by (auto dest!: char_matcher_consumed)
next
  case WhiteSpace
  then show ?case by (auto dest!: char_matcher_consumed)
next
  case Digit
  then show ?case by (auto dest!: char_matcher_consumed)
next
  case (OneOf cs)
  then show ?case by (auto dest!: char_matcher_consumed)
next
  case LineStart
  then show ?case by (simp split: if_splits)
next
  case (Seq a b)
  from Seq.prems obtain z where z: "z \<in> set (matcher a x)" "y \<in> set (matcher b z)"
    by auto
  from Seq.IH(1) [OF z(1)] Seq.IH(2) [OF z(2)] Seq.prems(2) show ?case by simp
next
  case (Alt a b)
  from Alt.prems(1) have "y \<in> set (matcher a x) \<or> y \<in> set (matcher b x)"
    by simp
  then show ?case using Alt.IH Alt.prems(2) by auto
next
  case (Opt a)
  from Opt.prems(1) have "y = x \<or> y \<in> set (matcher a (clear_captures (groups a) x))"
    by (simp, blast)
  then show ?case
  proof
    assume "y = x" then show ?thesis by simp
  next
    assume "y \<in> set (matcher a (clear_captures (groups a) x))"
    from Opt.IH [OF this] Opt.prems(2) show ?thesis by (simp add: capture_clear)
  qed
next
  case (Star a)
  have m: "\<And>x y. y \<in> set (matcher a (clear_captures (groups a) x))
             \<Longrightarrow> map_of (captures y) j = map_of (captures x) j"
    using Star.IH [of _ "clear_captures (groups a) _"] Star.prems(2) by (simp add: capture_clear)
  from Star.prems(1) show ?case
    using repeat_greedy_rel
      [of "\<lambda>x y. map_of (captures y) j = map_of (captures x) j" "\<lambda>x. matcher a (clear_captures (groups a) x)" y x]
      m by simp
next
  case (LazyStar a)
  have m: "\<And>x y. y \<in> set (matcher a (clear_captures (groups a) x))
             \<Longrightarrow> map_of (captures y) j = map_of (captures x) j"
    using LazyStar.IH [of _ "clear_captures (groups a) _"] LazyStar.prems(2) by (simp add: capture_clear)
  from LazyStar.prems(1) show ?case
    using repeat_lazy_rel
      [of "\<lambda>x y. map_of (captures y) j = map_of (captures x) j" "\<lambda>x. matcher a (clear_captures (groups a) x)" y x]
      m by simp
next
  case (Plus a)
  have m: "\<And>x y. y \<in> set (matcher a (clear_captures (groups a) x))
             \<Longrightarrow> map_of (captures y) j = map_of (captures x) j"
    using Plus.IH [of _ "clear_captures (groups a) _"] Plus.prems(2) by (simp add: capture_clear)
  from Plus.prems(1) obtain z where z: "z \<in> set (matcher a (clear_captures (groups a) x))"
    "y \<in> set (repeat_greedy (\<lambda>x. matcher a (clear_captures (groups a) x)) z)"
    by auto
  from repeat_greedy_rel
      [of "\<lambda>x y. map_of (captures y) j = map_of (captures x) j" "\<lambda>x. matcher a (clear_captures (groups a) x)" y z]
      m z(2)
  have "map_of (captures y) j = map_of (captures z) j" by simp
  with m [OF z(1)] show ?case by simp
next
  case (Group k a)
  from Group.prems(1) obtain z where z: "z \<in> set (matcher a x)" "y = set_capture k x z"
    by auto
  from Group.IH [OF z(1)] Group.prems(2) z(2) show ?case by (simp add: capture_set_other)
qed

text \<open>
  A group stands at a mandatory place of a pattern when every match passes through it
  once and nothing after it touches its capture.
\<close>

primrec mandatory :: "regex \<Rightarrow> nat \<Rightarrow> regex \<Rightarrow> bool" where
  "mandatory Empty k a = False"
| "mandatory (Lit c) k a = False"
| "mandatory Dot k a = False"
| "mandatory WhiteSpace k a = False"
| "mandatory Digit k a = False"
| "mandatory (OneOf cs) k a = False"
| "mandatory LineStart k a = False"
| "mandatory (Seq r1 r2) k a = (mandatory r2 k a \<or> (mandatory r1 k a \<and> k \<notin> set (groups r2)))"
| "mandatory (Alt r1 r2) k a = False"
| "mandatory (Opt r) k a = False"
| "mandatory (Star r) k a = False"
| "mandatory (LazyStar r) k a = False"
| "mandatory (Plus r) k a = False"
| "mandatory (Group j r) k a = (j = k \<and> r = a)"

lemma consumed_take: "consumed x y w \<Longrightarrow> take (endIndex y - endIndex x) (rest x) = w"
  by (simp add: consumed_def)

lemma mandatory_capture:
  "mandatory r k a \<Longrightarrow> y \<in> set (matcher r x)
   \<Longrightarrow> \<exists>x' z w. z \<in> set (matcher a x') \<and> consumed x' z w \<and> map_of (captures y) k = Some w"
proof (induction r arbitrary: x y)
  case (Seq r1 r2)
  from Seq.prems(2) obtain z1 where z1: "z1 \<in> set (matcher r1 x)" "y \<in> set (matcher r2 z1)"
    by auto
  from Seq.prems(1) have "mandatory r2 k a \<or> (mandatory r1 k a \<and> k \<notin> set (groups r2))"
    by simp
  then show ?case
  proof
    assume "mandatory r2 k a"
    from Seq.IH(2) [OF this z1(2)] show ?thesis .
  next
    assume h: "mandatory r1 k a \<and> k \<notin> set (groups r2)"
    from Seq.IH(1) [OF _ z1(1)] h obtain x' z w where
      "z \<in> set (matcher a x')" "consumed x' z w" "map_of (captures z1) k = Some w" by blast
    moreover from matcher_frame [OF z1(2)] h have "map_of (captures y) k = map_of (captures z1) k"
      by simp
    ultimately show ?thesis by auto
  qed
next
  case (Group j r)
  from Group.prems(1) have jk: "j = k" "r = a" by simp_all
  from Group.prems(2) obtain z where z: "z \<in> set (matcher r x)" "y = set_capture j x z"
    by auto
  from matcher_consumed [OF z(1)] obtain w where w: "consumed x z w" by blast
  from z(2) jk have "map_of (captures y) k = Some (take (endIndex z - endIndex x) (rest x))"
    by (simp add: capture_set_same)
  with consumed_take [OF w] have "map_of (captures y) k = Some w" by simp
  with z(1) w jk show ?case by blast
qed simp_all

definition digits :: "string \<Rightarrow> bool" where
  "digits ds = (ds \<noteq> [] \<and> (\<forall>d \<in> set ds. isDigit d))"

definition numeral_shape :: "string \<Rightarrow> bool" where
  "numeral_shape w =
     (\<exists>sign ds frac. w = sign @ ds @ frac \<and> (sign = [] \<or> sign = ''-'') \<and> digits ds
        \<and> (frac = [] \<or> (\<exists>fs. frac = CHR ''.'' # fs \<and> digits fs)))"

lemma consumed_unique: "consumed x y v \<Longrightarrow> consumed x y w \<Longrightarrow> v = w"
  by (auto simp: consumed_def)

lemma matcher_Seq_iff:
  "y \<in> set (matcher (Seq a b) x) \<longleftrightarrow> (\<exists>z \<in> set (matcher a x). y \<in> set (matcher b z))"
  by auto

lemma matcher_Opt_cases:
  "y \<in> set (matcher (Opt a) x) \<Longrightarrow> y = x \<or> y \<in> set (matcher a (clear_captures (groups a) x))"
  by (simp, blast)

lemma matcher_Group_iff:
  "y \<in> set (matcher (Group k a) x) \<longleftrightarrow> (\<exists>z \<in> set (matcher a x). y = set_capture k x z)"
  by auto

lemma matcher_Plus_iff:
  "y \<in> set (matcher (Plus a) x) \<longleftrightarrow>
     (\<exists>z \<in> set (matcher a (clear_captures (groups a) x)).
        y \<in> set (repeat_greedy (\<lambda>x. matcher a (clear_captures (groups a) x)) z))"
  by auto

lemma digit_run:
  "y \<in> set (repeat_greedy (\<lambda>x. matcher Digit (clear_captures [] x)) x)
   \<Longrightarrow> \<exists>w. consumed x y w \<and> (\<forall>d \<in> set w. isDigit d)"
proof (rule repeat_greedy_rel
    [of "\<lambda>x y. \<exists>w. consumed x y w \<and> (\<forall>d \<in> set w. isDigit d)" "\<lambda>x. matcher Digit (clear_captures [] x)" y x])
  show "\<exists>w. consumed x x w \<and> (\<forall>d \<in> set w. isDigit d)" for x
    using consumed_refl by fastforce
  show "\<exists>w. consumed x z w \<and> (\<forall>d \<in> set w. isDigit d)"
    if "\<exists>w. consumed x y w \<and> (\<forall>d \<in> set w. isDigit d)"
      and "\<exists>w. consumed y z w \<and> (\<forall>d \<in> set w. isDigit d)" for x y z
  proof -
    from that obtain v w where "consumed x y v" "\<forall>d \<in> set v. isDigit d"
      "consumed y z w" "\<forall>d \<in> set w. isDigit d" by blast
    then have "consumed x z (v @ w) \<and> (\<forall>d \<in> set (v @ w). isDigit d)"
      using consumed_trans by auto
    then show ?thesis by blast
  qed
  show "\<exists>w. consumed x y w \<and> (\<forall>d \<in> set w. isDigit d)"
    if "y \<in> set (matcher Digit (clear_captures [] x))" for x y
  proof -
    from that have "y \<in> set (char_matcher isDigit (clear_captures [] x))" by simp
    from char_matcher_consumed [OF this] obtain d where "isDigit d" "consumed x y [d]"
      by auto
    then show ?thesis by fastforce
  qed
qed

lemma Plus_Digit_digits:
  assumes "y \<in> set (matcher (Plus Digit) x)"
  shows "\<exists>ds. consumed x y ds \<and> digits ds"
proof -
  from assms obtain z where z: "z \<in> set (matcher Digit (clear_captures [] x))"
    "y \<in> set (repeat_greedy (\<lambda>x. matcher Digit (clear_captures [] x)) z)"
    unfolding matcher_Plus_iff by auto
  from z(1) have "z \<in> set (char_matcher isDigit (clear_captures [] x))" by simp
  from char_matcher_consumed [OF this] obtain d where d: "isDigit d" "consumed x z [d]"
    by auto
  from digit_run [OF z(2)] obtain w where w: "consumed z y w" "\<forall>d \<in> set w. isDigit d"
    by blast
  from d w have "consumed x y ([d] @ w)" using consumed_trans by blast
  with d w show ?thesis by (intro exI [of _ "d # w"]) (simp add: digits_def)
qed

lemma Lit_consumed: "y \<in> set (matcher (Lit c) x) \<Longrightarrow> consumed x y [c]"
  by (auto dest!: char_matcher_consumed)

lemma number_pattern_shape:
  assumes "y \<in> set (matcher (number_pattern k) x)"
  shows "\<exists>w. consumed x y w \<and> numeral_shape w"
proof -
  from assms obtain z1 z2 where
    s: "z1 \<in> set (matcher (Opt (Lit CHR ''-'')) x)"
    and d: "z2 \<in> set (matcher (Plus Digit) z1)"
    and f: "y \<in> set (matcher (Opt (Group k (Seq (Lit CHR ''.'') (Plus Digit)))) z2)"
    unfolding number_pattern_def matcher_Seq_iff by blast
  from matcher_Opt_cases [OF s] have "z1 = x \<or> z1 \<in> set (matcher (Lit CHR ''-'') (clear_captures [] x))"
    by simp
  then obtain sign where sign: "consumed x z1 sign" "sign = [] \<or> sign = ''-''"
  proof
    assume "z1 = x"
    then have "consumed x z1 []" using consumed_refl by simp
    then show ?thesis using that by blast
  next
    assume "z1 \<in> set (matcher (Lit CHR ''-'') (clear_captures [] x))"
    from Lit_consumed [OF this] have "consumed x z1 ''-''" by simp
    then show ?thesis using that by blast
  qed
  from Plus_Digit_digits [OF d] obtain ds where ds: "consumed z1 z2 ds" "digits ds" by blast
  let ?g = "Group k (Seq (Lit CHR ''.'') (Plus Digit))"
  from matcher_Opt_cases [OF f] have "y = z2 \<or> y \<in> set (matcher ?g (clear_captures (groups ?g) z2))" .
  then obtain frac where frac: "consumed z2 y frac"
    "frac = [] \<or> (\<exists>fs. frac = CHR ''.'' # fs \<and> digits fs)"
  proof
    assume "y = z2"
    then have "consumed z2 y []" using consumed_refl by simp
    then show ?thesis using that by blast
  next
    assume "y \<in> set (matcher ?g (clear_captures (groups ?g) z2))"
    then obtain y0 where y0: "y0 \<in> set (matcher (Seq (Lit CHR ''.'') (Plus Digit)) (clear_captures (groups ?g) z2))"
      "y = set_capture k (clear_captures (groups ?g) z2) y0"
      unfolding matcher_Group_iff by blast
    from y0(1) obtain z3 where z3: "z3 \<in> set (matcher (Lit CHR ''.'') (clear_captures (groups ?g) z2))"
      "y0 \<in> set (matcher (Plus Digit) z3)"
      unfolding matcher_Seq_iff by blast
    from Lit_consumed [OF z3(1)] have p: "consumed z2 z3 ''.''" by simp
    from Plus_Digit_digits [OF z3(2)] obtain fs where fs: "consumed z3 y0 fs" "digits fs" by blast
    from consumed_trans [OF p fs(1)] y0(2) have "consumed z2 y (CHR ''.'' # fs)" by simp
    with fs(2) show ?thesis using that by blast
  qed
  from consumed_trans [OF consumed_trans [OF sign(1) ds(1)] frac(1)]
  have "consumed x y (sign @ ds @ frac)" by simp
  moreover have "numeral_shape (sign @ ds @ frac)"
    unfolding numeral_shape_def using sign(2) ds(2) frac(2) by blast
  ultimately show ?thesis by blast
qed

lemma isDigit_not_space: "isDigit d \<Longrightarrow> \<not> isWhiteSpace d"
  by (auto simp: isDigit_def isWhiteSpace_def)

lemma parseFloat_numeral:
  assumes "numeral_shape w"
  shows "w \<noteq> []" and "\<not> isNaN (parseFloat w)"
proof -
  from assms obtain sign ds frac where w: "w = sign @ ds @ frac" "sign = [] \<or> sign = ''-''"
    "digits ds" by (auto simp: numeral_shape_def)
  from w(3) obtain d ds' where ds: "ds = d # ds'" "isDigit d"
    by (cases ds) (auto simp: digits_def)
  from w ds show "w \<noteq> []" by simp
  have d_plain: "d \<noteq> CHR ''-''" "d \<noteq> CHR ''+''" "\<not> isWhiteSpace d"
    using ds(2) by (auto simp: isDigit_def isWhiteSpace_def)
  from w(2) show "\<not> isNaN (parseFloat w)"
  proof
    assume "sign = []"
    with w ds d_plain show ?thesis
      by (simp add: parseFloat_def Let_def)
  next
    assume "sign = ''-''"
    with w ds d_plain show ?thesis
      by (simp add: parseFloat_def Let_def isWhiteSpace_def)
  qed
qed

lemma mandatory_group_1: "mandatory coordinate_regex 1 (LazyStar Dot)"
  by (simp add: coordinate_regex_def number_pattern_def literal_def either_case_def)

lemma mandatory_group_2: "mandatory coordinate_regex 2 (number_pattern 3)"
  by (simp add: coordinate_regex_def literal_def either_case_def) (simp add: number_pattern_def)

lemma mandatory_group_4: "mandatory coordinate_regex 4 (number_pattern 5)"
  by (simp add: coordinate_regex_def literal_def either_case_def)

lemma mandatory_number:
  assumes "mandatory r k (number_pattern j)" and "y \<in> set (matcher r x)"
  shows "\<exists>w. map_of (captures y) k = Some w \<and> numeral_shape w"
proof -
  from mandatory_capture [OF assms] obtain x' z w where
    z: "z \<in> set (matcher (number_pattern j) x')" and c: "consumed x' z w"
    and m: "map_of (captures y) k = Some w"
    by blast
  from number_pattern_shape [OF z] obtain v where v: "consumed x' z v" "numeral_shape v"
    by blast
  from consumed_unique [OF c v(1)] v(2) m show ?thesis by simp
qed

lemma coordinate_regex_captures:
  assumes "regex_exec coordinate_regex input lastIndex = Some y"
  shows "\<exists>m1 m2 m4. map_of (captures y) 1 = Some m1
           \<and> map_of (captures y) 2 = Some m2 \<and> numeral_shape m2
           \<and> map_of (captures y) 4 = Some m4 \<and> numeral_shape m4"
proof -
  from assms have "try_from coordinate_regex (drop lastIndex input) lastIndex = Some y"
    by (simp add: regex_exec_def split: if_splits)
  from try_from_Some [OF this] obtain x where y: "y \<in> set (matcher coordinate_regex x)"
    by blast
  from mandatory_capture [OF mandatory_group_1 y] obtain m1 where "map_of (captures y) 1 = Some m1"
    by blast
  moreover from mandatory_number [OF mandatory_group_2 y] obtain m2 where
    "map_of (captures y) 2 = Some m2" "numeral_shape m2" by blast
  moreover from mandatory_number [OF mandatory_group_4 y] obtain m4 where
    "map_of (captures y) 4 = Some m4" "numeral_shape m4" by blast
  ultimately show ?thesis by blast
qed

text \<open>The successive matches of the pattern in a text, as the loop meets them.\<close>

function exec_all :: "string \<Rightarrow> nat \<Rightarrow> match_state list" where
  "exec_all input lastIndex =
     (case regex_exec coordinate_regex input lastIndex of
        None \<Rightarrow> []
      | Some y \<Rightarrow> y # exec_all input (endIndex y))"
  by pat_completeness auto
termination
  by (relation "measure (\<lambda>(input, lastIndex). Suc (length input) - lastIndex)")
     (auto dest: coordinate_regex_measure)

declare exec_all.simps [simp del]

definition matched :: "match_state \<Rightarrow> nat \<Rightarrow> string" where
  "matched y k = (case map_of (captures y) k of None \<Rightarrow> [] | Some s \<Rightarrow> s)"

definition place_of :: "match_state \<Rightarrow> string \<Rightarrow> Place" where
  "place_of y new_id =
     \<lparr>place_id = new_id,
      name = cleanName (trim (matched y 1)),
      coordinate = \<lparr>lat = parseFloat (matched y 2), lng = parseFloat (matched y 4)\<rparr>,
      description = None\<rparr>"

fun places_of :: "generator \<Rightarrow> match_state list \<Rightarrow> Place list" where
  "places_of random [] = []"
| "places_of random (y # ys) = place_of y (random 0) # places_of (\<lambda>k. random (Suc k)) ys"

lemma push_place_match:
  assumes "regex_exec coordinate_regex input lastIndex = Some y"
  shows "\<exists>m1. map_of (captures y) 1 = Some m1
           \<and> push_place y (cleanName (trim m1)) acc
               = (fst acc @ [place_of y (snd acc 0)], \<lambda>k. snd acc (Suc k))"
proof -
  from coordinate_regex_captures [OF assms] obtain m1 m2 m4 where
    c: "map_of (captures y) 1 = Some m1" "map_of (captures y) 2 = Some m2"
       "map_of (captures y) 4 = Some m4"
    and s: "numeral_shape m2" "numeral_shape m4" by blast
  from parseFloat_numeral [OF s(1)] parseFloat_numeral [OF s(2)] c
  have "push_place y (cleanName (trim m1)) acc
          = (fst acc @ [place_of y (snd acc 0)], \<lambda>k. snd acc (Suc k))"
    by (simp add: push_place_def place_of_def matched_def Let_def)
  with c(1) show ?thesis by blast
qed

lemma parse_loop_places:
  "parse_loop input lastIndex acc
     = Inr (fst acc @ places_of (snd acc) (exec_all input lastIndex),
            \<lambda>k. snd acc (length (exec_all input lastIndex) + k))"
proof (induction input lastIndex acc rule: parse_loop.induct)
  case (1 input lastIndex acc)
  show ?case
  proof (cases "regex_exec coordinate_regex input lastIndex")
    case None
    then show ?thesis
      by (subst parse_loop.simps, subst (1 2) exec_all.simps) simp
  next
    case (Some y)
    from push_place_match [OF Some, of acc] obtain m1 where
      m1: "map_of (captures y) 1 = Some m1"
      and p: "push_place y (cleanName (trim m1)) acc
                = (fst acc @ [place_of y (snd acc 0)], \<lambda>k. snd acc (Suc k))"
      by blast
    have "parse_loop input lastIndex acc
            = parse_loop input (endIndex y) (push_place y (cleanName (trim m1)) acc)"
      by (subst parse_loop.simps) (use m1 in \<open>simp add: Some\<close>)
    also have "\<dots> = Inr (fst (push_place y (cleanName (trim m1)) acc)
                            @ places_of (snd (push_place y (cleanName (trim m1)) acc)) (exec_all input (endIndex y)),
                          \<lambda>k. snd (push_place y (cleanName (trim m1)) acc) (length (exec_all input (endIndex y)) + k))"
      by (rule "1.IH" [OF Some m1])
    also have "\<dots> = Inr (fst acc @ places_of (snd acc) (exec_all input lastIndex),
                          \<lambda>k. snd acc (length (exec_all input lastIndex) + k))"
      unfolding p by (subst (3 4) exec_all.simps) (simp add: Some)
    finally show ?thesis .
  qed
qed

lemma parseCoordinatesFromText_places:
  "parseCoordinatesFromText random input
     = Inr (places_of random (exec_all input 0), \<lambda>k. random (length (exec_all input 0) + k))"
  by (simp add: parseCoordinatesFromText_def parse_loop_places)

lemma coordinate_places_of:
  "map coordinate (places_of random ys)
     = map (\<lambda>y. \<lparr>lat = parseFloat (matched y 2), lng = parseFloat (matched y 4)\<rparr>) ys"
  by (induction ys arbitrary: random) (simp_all add: place_of_def)

lemma name_places_of:
  "map name (places_of random ys) = map (\<lambda>y. cleanName (trim (matched y 1))) ys"
  by (induction ys arbitrary: random) (simp_all add: place_of_def)

lemma place_id_places_of:
  "map place_id (places_of random ys) = map random [0..<length ys]"
proof (induction ys arbitrary: random)
  case Nil
  then show ?case by simp
next
  case (Cons y ys)
  have "[0..<Suc (length ys)] = 0 # map Suc [0..<length ys]"
    by (simp add: upt_conv_Cons map_Suc_upt del: upt_Suc)
  with Cons [of "\<lambda>k. random (Suc k)"] show ?case
    by (simp add: place_of_def comp_def del: upt_Suc)
qed

lemma length_places_of: "length (places_of random ys) = length ys"
  by (induction ys arbitrary: random) simp_all

lemma description_places_of: "map description (places_of random ys) = map (\<lambda>y. None) ys"
  by (induction ys arbitrary: random) (simp_all add: place_of_def)

section \<open>The saved-places panel (ChatInterface.tsx)\<close>

text \<open>
  \<^verbatim>\<open>removeFromDatabase(placeId, placeName)\<close> filters the saved list with
  \<^verbatim>\<open>p.id !== placeId && p.name !== placeName\<close>; the filtered list is stored
  and handed to the map.
\<close>

definition removeFromDatabase :: "Place list \<Rightarrow> string \<Rightarrow> string \<Rightarrow> Place list" where
  "removeFromDatabase savedPlaces placeId placeName =
     filter (\<lambda>p. place_id p \<noteq> placeId \<and> name p \<noteq> placeName) savedPlaces"

text \<open>
  \<^verbatim>\<open>handleSaveAllToDatabase\<close> reads the stored list, walks the current result
  places and appends each one that no entry of the growing list duplicates. An entry
  duplicates a place when the names are equal and
  \<^verbatim>\<open>Math.abs(p.coordinate.lat - place.coordinate.lat) < 0.0001\<close>. The stored list
  is \<open>None\<close> when reading or parsing it raises; the handler then reports an error and
  writes nothing.
\<close>

definition exists_in :: "Place list \<Rightarrow> Place \<Rightarrow> bool" where
  "exists_in newSaved place =
     list_ex (\<lambda>p. name p = name place
                \<and> num_lt (Math_abs (num_sub (lat (coordinate p)) (lat (coordinate place))))
                     (Num (1 / 10000)))
       newSaved"

record save_loop =
  newSaved :: "Place list"
  count :: nat
  lastSavedName :: string

definition save_place :: "save_loop \<Rightarrow> Place \<Rightarrow> save_loop" where
  "save_place acc place =
     (if \<not> exists_in (newSaved acc) place
      then \<lparr>newSaved = newSaved acc @ [place], count = count acc + 1, lastSavedName = name place\<rparr>
      else acc)"

fun decimal :: "nat \<Rightarrow> string" where
  "decimal n = (if n < 10 then [''0123456789'' ! n]
                else decimal (n div 10) @ [''0123456789'' ! (n mod 10)])"

record save_report =
  stored :: "Place list option"
  added :: nat
  dbMessage :: string

definition handleSaveAllToDatabase :: "Place list option \<Rightarrow> Place list \<Rightarrow> save_report" where
  "handleSaveAllToDatabase currentSaved result_places =
     (case currentSaved of
        None \<Rightarrow> \<lparr>stored = None, added = 0, dbMessage = ''Error saving data.''\<rparr>
      | Some saved \<Rightarrow>
          (let acc = foldl save_place
                       \<lparr>newSaved = saved, count = 0, lastSavedName = []\<rparr> result_places
           in \<lparr>stored = Some (newSaved acc),
               added = count acc,
               dbMessage =
                 (if count acc > 0
                  then (if count acc = 1
                        then ''Stored \"'' @ lastSavedName acc @ ''\" to database''
                        else ''Stored '' @ decimal (count acc) @ '' locations to database'')
                  else ''Locations already in database'')\<rparr>))"

section \<open>The map view (MapComponent.tsx)\<close>

text \<open>
  \<^verbatim>\<open>isValidLatLng\<close> also tests \<^verbatim>\<open>typeof lat === 'number'\<close>; the record type
  already says so, which leaves the two \<^verbatim>\<open>isNaN\<close> tests.
\<close>

definition isValidLatLng :: "number \<Rightarrow> number \<Rightarrow> bool" where
  "isValidLatLng a b = (\<not> isNaN a \<and> \<not> isNaN b)"

text \<open>
  Leaflet is a library the component calls. Its bounds object is modelled as the
  library documents it: \<^verbatim>\<open>L.latLngBounds(points)\<close> starts with no corners and
  extends the rectangle by each point in turn, taking the minimum and maximum of the
  latitudes and of the longitudes; the bounds are valid once a point was added.
\<close>

record LatLngBounds =
  south :: number
  west :: number
  north :: number
  east :: number

fun extend_bounds :: "LatLngBounds option \<Rightarrow> number \<times> number \<Rightarrow> LatLngBounds option" where
  "extend_bounds None (a, b) = Some \<lparr>south = a, west = b, north = a, east = b\<rparr>"
| "extend_bounds (Some r) (a, b) =
     Some \<lparr>south = Math_min (south r) a, west = Math_min (west r) b,
           north = Math_max (north r) a, east = Math_max (east r) b\<rparr>"

definition latLngBounds :: "(number \<times> number) list \<Rightarrow> LatLngBounds option" where
  "latLngBounds points = foldl extend_bounds None points"

text \<open>A rectangle encloses a coordinate.\<close>

definition encloses :: "LatLngBounds \<Rightarrow> LatLng \<Rightarrow> bool" where
  "encloses b c = (num_le (south b) (lat c) \<and> num_le (lat c) (north b)
                 \<and> num_le (west b) (lng c) \<and> num_le (lng c) (east b))"

text \<open>
  The calls the effect makes on the map:
  \<^verbatim>\<open>map.fitBounds(bounds, { padding: [50, 50], maxZoom: 16 })\<close> and
  \<^verbatim>\<open>map.flyTo([center.lat, center.lng], zoom, { duration: 1.5 })\<close>.
\<close>

datatype map_call =
    FitBounds LatLngBounds "nat \<times> nat" int
  | FlyTo number number int real

text \<open>
  The \<^verbatim>\<open>places\<close> prop is an array object: the effect compares it with the array
  kept in \<^verbatim>\<open>prevPlacesRef\<close> by identity (\<^verbatim>\<open>!==\<close>), so an array is its address
  together with its elements, and the ref holds an address. The Leaflet map answers
  \<^verbatim>\<open>getCenter()\<close> and \<^verbatim>\<open>getZoom()\<close>.
\<close>

record PlaceArray =
  array_ref :: nat
  array_elems :: "Place list"

record leaflet_map =
  getCenter :: LatLng
  getZoom :: int

text \<open>
  The distance the effect computes,
  \<^verbatim>\<open>Math.sqrt(Math.pow(currentCenter.lat - center.lat, 2) + Math.pow(currentCenter.lng - center.lng, 2))\<close>,
  in binary64 arithmetic.
\<close>

definition dist :: "LatLng \<Rightarrow> LatLng \<Rightarrow> number" where
  "dist currentCenter center =
     Math_sqrt (float_add (Math_pow2 (float_sub (lat currentCenter) (lat center)))
                          (Math_pow2 (float_sub (lng currentCenter) (lng center))))"

text \<open>
  One run of the effect of \<^verbatim>\<open>MapUpdater\<close>: the props \<open>center\<close>, \<open>zoom\<close> and
  \<open>places\<close>, the map and the address in \<^verbatim>\<open>prevPlacesRef.current\<close> go in; the call
  made on the map, if any, and the address the ref holds afterwards come out. The
  literal \<^verbatim>\<open>0.0001\<close> denotes the binary64 nearest to it.
\<close>

definition MapUpdater :: "LatLng \<Rightarrow> int \<Rightarrow> PlaceArray \<Rightarrow> leaflet_map \<Rightarrow> nat \<Rightarrow> map_call option \<times> nat" where
  "MapUpdater center zoom places_prop m prevPlacesRef =
     (if \<not> isValidLatLng (lat center) (lng center) then (None, prevPlacesRef)
      else if array_ref places_prop \<noteq> prevPlacesRef \<and> length (array_elems places_prop) > 0 then
        (let validPlaces =
               filter (\<lambda>p. isValidLatLng (lat (coordinate p)) (lng (coordinate p)))
                 (array_elems places_prop)
         in (if length validPlaces > 0
             then (case latLngBounds (map (\<lambda>p. (lat (coordinate p), lng (coordinate p))) validPlaces) of
                     Some bounds \<Rightarrow> Some (FitBounds bounds (50, 50) 16)
                   | None \<Rightarrow> None)
             else None,
             array_ref places_prop))
      else
        (let currentCenter = getCenter m; currentZoom = getZoom m
         in if \<not> isValidLatLng (lat currentCenter) (lng currentCenter) then (None, prevPlacesRef)
            else
              (let isZoomDifferent = (currentZoom \<noteq> zoom)
               in if num_lt (Num (binary64 (1 / 10000))) (dist currentCenter center) \<or> isZoomDifferent
                  then (Some (FlyTo (lat center) (lng center) zoom (3 / 2)), prevPlacesRef)
                  else (None, prevPlacesRef))))"

text \<open>
  \<^verbatim>\<open>MapComponent\<close> is the only caller of \<^verbatim>\<open>MapUpdater\<close>. Each time it renders
  it replaces an invalid \<open>center\<close> by a fixed one (New York), builds
  \<^verbatim>\<open>safePlaces\<close> with \<^verbatim>\<open>places.filter(...)\<close>, which makes a new array object
  every time, and hands both to \<^verbatim>\<open>MapUpdater\<close>. Because \<^verbatim>\<open>safePlaces\<close> is
  among the dependencies of the effect and is a new object after every render, the
  effect runs after every render. Which array object the \<^verbatim>\<open>places\<close> prop itself
  is plays no role, since only the filtered copy is handed on; the prop is its list
  of places.

  What the mounted component keeps between renders is the address in
  \<^verbatim>\<open>prevPlacesRef.current\<close>; \<open>next_array\<close> is the address the next array
  created gets, so that an array made later differs from every array made before. At
  mount \<^verbatim>\<open>useRef<Place[]>([])\<close> creates the empty array the ref starts with.
\<close>

record mounted =
  prevPlacesRef_current :: nat
  next_array :: nat

definition mount :: mounted where
  "mount = \<lparr>prevPlacesRef_current = 0, next_array = 1\<rparr>"

definition safeCenter :: "LatLng \<Rightarrow> LatLng" where
  "safeCenter center =
     (if isValidLatLng (lat center) (lng center) then center
      else \<lparr>lat = Num (binary64 (407128 / 10000)), lng = Num (- binary64 (74006 / 1000))\<rparr>)"

definition safePlaces :: "Place list \<Rightarrow> Place list" where
  "safePlaces places_prop =
     filter (\<lambda>p. isValidLatLng (lat (coordinate p)) (lng (coordinate p))) places_prop"

definition MapComponent :: "LatLng \<Rightarrow> int \<Rightarrow> Place list \<Rightarrow> leaflet_map \<Rightarrow> mounted
                              \<Rightarrow> map_call option \<times> mounted" where
  "MapComponent center zoom places_prop m v =
     (let (call, current) =
            MapUpdater (safeCenter center) zoom
              \<lparr>array_ref = next_array v, array_elems = safePlaces places_prop\<rparr>
              m (prevPlacesRef_current v)
      in (call, \<lparr>prevPlacesRef_current = current, next_array = Suc (next_array v)\<rparr>))"

text \<open>
  A sequence of renders of the mounted component, each with its props and with the
  view the map has when the effect runs; the calls made on the map, in order.
\<close>

fun renders :: "(LatLng \<times> int \<times> Place list \<times> leaflet_map) list \<Rightarrow> mounted \<Rightarrow> map_call option list" where
  "renders [] v = []"
| "renders ((center, zoom, places_prop, m) # rs) v =
     (let (call, v') = MapComponent center zoom places_prop m v in call # renders rs v')"

section \<open>The session state (App)\<close>

text \<open>
  The component's state hooks and its one ref, as a record. Zoom levels are integers
  (the specification's viewport has an integer zoom).
\<close>

record App =
  places :: "Place list"
  summary :: string
  sources :: "GroundingSource list"
  isLoading :: bool
  userLocation :: "LatLng option"
  mapCenter :: LatLng
  mapZoom :: int
  selectedPlaceId :: "string option"
  previousViewState :: "(LatLng \<times> int) option"
  searchResultsBackup :: "(Place list \<times> string \<times> GroundingSource list) option"

definition handleMapMove :: "LatLng \<Rightarrow> int \<Rightarrow> App \<Rightarrow> App" where
  "handleMapMove newCenter newZoom s =
     s\<lparr>userLocation := Some newCenter, mapCenter := newCenter, mapZoom := newZoom\<rparr>"

text \<open>
  \<^verbatim>\<open>handleSearch\<close> runs in two parts, separated by the awaited transport call.
  The part before the \<^verbatim>\<open>await\<close> snapshots the view, drops the backup, marks the
  session busy and empties the published result; it hands the query and the stored
  user location to \<^verbatim>\<open>sendMessageToGemini\<close>.
\<close>

definition handleSearch_dispatch :: "string \<Rightarrow> App \<Rightarrow> App \<times> (string \<times> LatLng option)" where
  "handleSearch_dispatch query s =
     (s\<lparr>previousViewState := Some (mapCenter s, mapZoom s),
        searchResultsBackup := None,
        isLoading := True,
        summary := '''',
        places := [],
        sources := [],
        selectedPlaceId := None\<rparr>,
      (query, userLocation s))"

text \<open>
  The part after the \<^verbatim>\<open>await\<close>: the \<^verbatim>\<open>try\<close> branch publishes the response,
  the \<^verbatim>\<open>catch\<close> branch writes the apology into the summary, and \<^verbatim>\<open>finally\<close>
  ends the busy state. Neither branch looks at which query the settled call belongs to.
\<close>

definition handleSearch_settled :: "error + Response \<Rightarrow> App \<Rightarrow> App" where
  "handleSearch_settled outcome s =
     (case outcome of
        Inr response \<Rightarrow>
          s\<lparr>summary := response_text response,
            places := response_places response,
            sources := response_sources response,
            isLoading := False\<rparr>
      | Inl e \<Rightarrow>
          s\<lparr>summary := ''Sorry, I couldn't find that place. Please try again.'',
            isLoading := False\<rparr>)"

text \<open>
  A session is the component state together with the transport calls that have not
  settled yet, oldest first. \<open>Search\<close> is a call of \<^verbatim>\<open>handleSearch\<close> (the overlay
  makes it from a suggestion click without looking at the busy flag), \<open>Settle i r\<close>
  is the \<open>i\<close>-th pending call settling with \<open>r\<close>, \<open>MapMove\<close> a gesture completion.
\<close>

record session =
  app :: App
  in_flight :: "(string \<times> LatLng option) list"

datatype event =
    Search string
  | Settle nat "error + Response"
  | MapMove LatLng int

fun step :: "session \<Rightarrow> event \<Rightarrow> session" where
  "step ss (Search query) =
     (let (s, call) = handleSearch_dispatch query (app ss)
      in \<lparr>app = s, in_flight = in_flight ss @ [call]\<rparr>)"
| "step ss (Settle i outcome) =
     (if i < length (in_flight ss)
      then \<lparr>app = handleSearch_settled outcome (app ss),
            in_flight = take i (in_flight ss) @ drop (Suc i) (in_flight ss)\<rparr>
      else ss)"
| "step ss (MapMove newCenter newZoom) = ss\<lparr>app := handleMapMove newCenter newZoom (app ss)\<rparr>"

definition run :: "session \<Rightarrow> event list \<Rightarrow> session" where
  "run ss evs = foldl step ss evs"

text \<open>The published search result: summary text, places and sources.\<close>

definition published :: "App \<Rightarrow> string \<times> Place list \<times> GroundingSource list" where
  "published s = (summary s, places s, sources s)"

definition result_of :: "Response \<Rightarrow> string \<times> Place list \<times> GroundingSource list" where
  "result_of r = (response_text r, response_places r, response_sources r)"

text \<open>
  Two kinds of events: one that publishes a response (a call that settles with a
  result), and one that moves the view (a gesture completion).
\<close>

fun publishes :: "event \<Rightarrow> bool" where
  "publishes (Settle i (Inr response)) = True"
| "publishes _ = False"

fun moves :: "event \<Rightarrow> bool" where
  "moves (MapMove newCenter newZoom) = True"
| "moves _ = False"

section \<open>Properties of the extractor\<close>

definition example_draws :: generator where
  "example_draws k = ''id'' @ decimal k"

lemma parseFloat_examples:
  "parseFloat ''40.7829'' = Num (407829 / 10000)"
  "parseFloat ''-73.9654'' = Num (- (739654 / 10000))"
  "parseFloat ''999'' = Num 999"
  "parseFloat ''0'' = Num 0"
  "parseFloat ''1'' = Num 1"
  "parseFloat ''2'' = Num 2"
  by (simp_all add: parseFloat_def isWhiteSpace_def isDigit_def digits_value_def digit_value_def)

lemma cleanName_empty: "cleanName (trim []) = ''Unknown Location''"
  by (simp add: cleanName_def trim_def strip_bullet_def strip_asterisks_def last_sentence_def)

lemma central_park_matches:
  "exec_all ''**Central Park** is great (lat: 40.7829, lng: -73.9654) - a big green space.'' 0
     = [\<lparr>endIndex = 55, rest = '' - a big green space.'',
         captures = [(4, ''-73.9654''), (5, ''.9654''), (2, ''40.7829''), (3, ''.7829''), (1, [])]\<rparr>]"
proof -
  let ?text = "''**Central Park** is great (lat: 40.7829, lng: -73.9654) - a big green space.''"
  have 1: "regex_exec coordinate_regex ?text 0
             = Some \<lparr>endIndex = 55, rest = '' - a big green space.'',
                     captures = [(4, ''-73.9654''), (5, ''.9654''), (2, ''40.7829''), (3, ''.7829''), (1, [])]\<rparr>"
    by (rule regex_exec_by_search [where n = 1000]) (simp_all add: search_eval)
  have 2: "regex_exec coordinate_regex ?text 55 = None"
    by (rule regex_exec_by_search [where n = 1000]) (simp_all add: search_eval)
  show ?thesis
    by (subst exec_all.simps, simp add: 1, subst exec_all.simps, simp add: 2)
qed

text \<open>
  C4. On the text \<^verbatim>\<open>**Central Park** is great (lat: 40.7829, lng: -73.9654) - a big
  green space.\<close> the claim expects one place named "Central Park". The extractor
  returns one place with the claimed coordinate, and its name is the placeholder: the
  lazy group that should capture the name is followed by a lazy wildcard, so the first
  successful match leaves the group empty.
\<close>

theorem central_park_is_unknown_location:
  "parseCoordinatesFromText random
     ''**Central Park** is great (lat: 40.7829, lng: -73.9654) - a big green space.''
   = Inr ([\<lparr>place_id = random 0, name = ''Unknown Location'',
            coordinate = \<lparr>lat = Num (407829 / 10000), lng = Num (- (739654 / 10000))\<rparr>,
            description = None\<rparr>],
          \<lambda>k. random (Suc k))"
  by (simp add: parseCoordinatesFromText_places central_park_matches place_of_def matched_def
        parseFloat_examples cleanName_empty)

lemma summit_matches:
  "exec_all ''Summit (lat: 999, lng: 0)'' 0
     = [\<lparr>endIndex = 25, rest = [], captures = [(4, ''0''), (2, ''999''), (1, [])]\<rparr>]"
proof -
  have 1: "regex_exec coordinate_regex ''Summit (lat: 999, lng: 0)'' 0
             = Some \<lparr>endIndex = 25, rest = [], captures = [(4, ''0''), (2, ''999''), (1, [])]\<rparr>"
    by (rule regex_exec_by_search [where n = 1000]) (simp_all add: search_eval)
  have 2: "regex_exec coordinate_regex ''Summit (lat: 999, lng: 0)'' 25 = None"
    by (rule regex_exec_by_search [where n = 1000]) (simp_all add: search_eval)
  show ?thesis
    by (subst exec_all.simps, simp add: 1, subst exec_all.simps, simp add: 2)
qed

text \<open>
  C1. The claim says that an annotation whose latitude or longitude is out of range
  yields no place. The extractor tests the two parsed numbers for \<open>NaN\<close> only, and the
  pattern captures nothing but decimal numerals, which never parse to \<open>NaN\<close>. So
  every match of the pattern yields exactly one place, carrying the two parsed numbers
  as they are, whatever their size; the extraction never raises.
\<close>

theorem extractor_keeps_every_match:
  "\<exists>found random'.
     parseCoordinatesFromText random input = Inr (found, random')
     \<and> length found = length (exec_all input 0)
     \<and> map coordinate found
         = map (\<lambda>y. \<lparr>lat = parseFloat (matched y 2), lng = parseFloat (matched y 4)\<rparr>) (exec_all input 0)"
  by (simp add: parseCoordinatesFromText_places length_places_of coordinate_places_of)

theorem out_of_range_place_published:
  "map_sum id fst (parseCoordinatesFromText example_draws ''Summit (lat: 999, lng: 0)'')
     = Inr [\<lparr>place_id = ''id0'', name = ''Unknown Location'',
             coordinate = \<lparr>lat = Num 999, lng = Num 0\<rparr>, description = None\<rparr>]
   \<and> \<not> num_le (Num 999) (Num 90)"
  by (simp add: parseCoordinatesFromText_places summit_matches place_of_def matched_def
        parseFloat_examples cleanName_empty example_draws_def)

text \<open>Running the extractor twice, the second run drawing where the first one stopped.\<close>

definition extract_twice :: "generator \<Rightarrow> string \<Rightarrow> error + Place list \<times> Place list" where
  "extract_twice random input =
     (case parseCoordinatesFromText random input of
        Inl e \<Rightarrow> Inl e
      | Inr (first_run, random') \<Rightarrow>
          (case parseCoordinatesFromText random' input of
             Inl e \<Rightarrow> Inl e
           | Inr (second_run, random'') \<Rightarrow> Inr (first_run, second_run)))"

lemma cafe_matches:
  "exec_all ''Cafe (lat: 1, lng: 2)'' 0
     = [\<lparr>endIndex = 21, rest = [], captures = [(4, ''2''), (2, ''1''), (1, [])]\<rparr>]"
proof -
  have 1: "regex_exec coordinate_regex ''Cafe (lat: 1, lng: 2)'' 0
             = Some \<lparr>endIndex = 21, rest = [], captures = [(4, ''2''), (2, ''1''), (1, [])]\<rparr>"
    by (rule regex_exec_by_search [where n = 1000]) (simp_all add: search_eval)
  have 2: "regex_exec coordinate_regex ''Cafe (lat: 1, lng: 2)'' 21 = None"
    by (rule regex_exec_by_search [where n = 1000]) (simp_all add: search_eval)
  show ?thesis
    by (subst exec_all.simps, simp add: 1, subst exec_all.simps, simp add: 2)
qed

text \<open>
  C8. The claim says that two runs on the same text yield the same records. Each record
  takes its id from \<^verbatim>\<open>Math.random\<close>, so the ids of two runs are the draws they
  happened to make. What two runs share, on every text, is the sequence of names,
  coordinates and descriptions; the ids of the first run are the first draws and
  those of the second run the draws after them.
\<close>

theorem extraction_repeats_up_to_ids:
  "\<exists>first_run second_run.
     extract_twice random input = Inr (first_run, second_run)
     \<and> map name first_run = map name second_run
     \<and> map coordinate first_run = map coordinate second_run
     \<and> map description first_run = map description second_run
     \<and> map place_id first_run = map random [0..<length first_run]
     \<and> map place_id second_run = map (\<lambda>k. random (length first_run + k)) [0..<length first_run]"
  by (simp add: extract_twice_def parseCoordinatesFromText_places length_places_of
        coordinate_places_of name_places_of description_places_of place_id_places_of)

theorem extraction_twice_differs:
  "extract_twice example_draws ''Cafe (lat: 1, lng: 2)''
     = Inr ([\<lparr>place_id = ''id0'', name = ''Unknown Location'',
              coordinate = \<lparr>lat = Num 1, lng = Num 2\<rparr>, description = None\<rparr>],
            [\<lparr>place_id = ''id1'', name = ''Unknown Location'',
              coordinate = \<lparr>lat = Num 1, lng = Num 2\<rparr>, description = None\<rparr>])
   \<and> set [\<lparr>place_id = ''id0'', name = ''Unknown Location'',
              coordinate = \<lparr>lat = Num 1, lng = Num 2\<rparr>, description = None\<rparr>]
     \<noteq> set [\<lparr>place_id = ''id1'', name = ''Unknown Location'',
              coordinate = \<lparr>lat = Num 1, lng = Num 2\<rparr>, description = None\<rparr>]"
  by (simp add: extract_twice_def parseCoordinatesFromText_places cafe_matches place_of_def matched_def
        parseFloat_examples cleanName_empty example_draws_def)

section \<open>Properties of the session\<close>

text \<open>
  How the published places and sources and the view pass through the events: an event
  that publishes no response leaves empty places and sources empty, and an event that
  is not a gesture completion leaves the map centre and zoom as they are.
\<close>

lemma step_no_publication:
  assumes "\<not> publishes ev" and "places (app ss) = []" and "sources (app ss) = []"
  shows "places (app (step ss ev)) = [] \<and> sources (app (step ss ev)) = []"
proof (cases ev)
  case (Search q)
  then show ?thesis by (simp add: handleSearch_dispatch_def)
next
  case (Settle i outcome)
  with assms show ?thesis
    by (cases outcome) (simp_all add: handleSearch_settled_def)
next
  case (MapMove c z)
  with assms show ?thesis by (simp add: handleMapMove_def)
qed

lemma run_no_publication:
  assumes "\<forall>ev \<in> set evs. \<not> publishes ev" and "places (app ss) = []" and "sources (app ss) = []"
  shows "places (app (run ss evs)) = [] \<and> sources (app (run ss evs)) = []"
  using assms unfolding run_def
proof (induction evs arbitrary: ss)
  case Nil
  then show ?case by simp
next
  case (Cons ev evs)
  from Cons.prems have "places (app (step ss ev)) = [] \<and> sources (app (step ss ev)) = []"
    by (intro step_no_publication) simp_all
  with Cons.IH [of "step ss ev"] Cons.prems(1) show ?case by simp
qed

lemma step_no_move:
  assumes "\<not> moves ev"
  shows "mapCenter (app (step ss ev)) = mapCenter (app ss) \<and> mapZoom (app (step ss ev)) = mapZoom (app ss)"
proof (cases ev)
  case (Search q)
  then show ?thesis by (simp add: handleSearch_dispatch_def)
next
  case (Settle i outcome)
  then show ?thesis
    by (cases outcome) (simp_all add: handleSearch_settled_def)
next
  case (MapMove c z)
  with assms show ?thesis by simp
qed

lemma run_no_move:
  assumes "\<forall>ev \<in> set evs. \<not> moves ev"
  shows "mapCenter (app (run ss evs)) = mapCenter (app ss) \<and> mapZoom (app (run ss evs)) = mapZoom (app ss)"
  using assms unfolding run_def
proof (induction evs arbitrary: ss)
  case Nil
  then show ?case by simp
next
  case (Cons ev evs)
  with step_no_move [of ev ss] show ?case by simp
qed

lemma run_Cons: "run ss (ev # evs) = run (step ss ev) evs"
  by (simp add: run_def)

text \<open>
  C2. The claim says that a failed transport call leaves the previously published
  places, summary and sources in place. \<^verbatim>\<open>handleSearch\<close> empties all three when
  the query is submitted, before it awaits the call, and the \<^verbatim>\<open>catch\<close> branch
  writes only the apology and ends the busy state, whatever the state is by then. So
  the previous result is gone from the submission on. When the call fails and no
  response of another call was published since the submission, the summary is the
  apology, the places and sources are empty and the session is no longer busy; the map
  centre and the zoom are what they were, unless a gesture moved the map in between.
  When a later query was answered in between, its places and sources stay published
  under the apology. \<^verbatim>\<open>sendMessageToGemini\<close> turns every failure of the transport
  into a failure.
\<close>

theorem failed_search_outcome:
  assumes "\<forall>ev \<in> set evs. \<not> publishes ev"
    and "i < length (in_flight (run ss (Search query # evs)))"
  shows "published (app (step ss (Search query))) = ([], [], [])
       \<and> published (app (run ss (Search query # evs @ [Settle i (Inl e)])))
           = (''Sorry, I couldn't find that place. Please try again.'', [], [])
       \<and> isLoading (app (run ss (Search query # evs @ [Settle i (Inl e)]))) = False
       \<and> ((\<forall>ev \<in> set evs. \<not> moves ev) \<longrightarrow>
            mapCenter (app (run ss (Search query # evs @ [Settle i (Inl e)]))) = mapCenter (app ss)
          \<and> mapZoom (app (run ss (Search query # evs @ [Settle i (Inl e)]))) = mapZoom (app ss))
       \<and> handleSearch_settled (Inl e) s
           = s\<lparr>summary := ''Sorry, I couldn't find that place. Please try again.'', isLoading := False\<rparr>
       \<and> published (app (run ss [Search a, Search b, Settle (Suc (length (in_flight ss))) (Inr rb),
                                 Settle (length (in_flight ss)) (Inl e)]))
           = (''Sorry, I couldn't find that place. Please try again.'', response_places rb, response_sources rb)
       \<and> (\<exists>e'. sendMessageToGemini apiKey random (Inl e) = Inl e')"
proof -
  let ?ss1 = "step ss (Search query)"
  let ?ss2 = "run ss (Search query # evs)"
  let ?end = "run ss (Search query # evs @ [Settle i (Inl e)])"
  have cleared: "published (app ?ss1) = ([], [], [])"
    by (simp add: published_def handleSearch_dispatch_def)
  then have "places (app ?ss1) = []" "sources (app ?ss1) = []"
    by (simp_all add: published_def)
  from run_no_publication [OF assms(1) this]
  have empty: "places (app ?ss2) = []" "sources (app ?ss2) = []"
    by (simp_all add: run_Cons)
  have end_eq: "?end = step ?ss2 (Settle i (Inl e))"
    by (simp add: run_def)
  have app_end: "app ?end = (app ?ss2)\<lparr>summary := ''Sorry, I couldn't find that place. Please try again.'',
                                     isLoading := False\<rparr>"
    unfolding end_eq using assms(2) by (simp add: handleSearch_settled_def)
  have failed: "published (app ?end) = (''Sorry, I couldn't find that place. Please try again.'', [], [])"
    unfolding app_end using empty by (simp add: published_def)
  have idle: "isLoading (app ?end) = False"
    unfolding app_end by simp
  have view: "mapCenter (app ?end) = mapCenter (app ss) \<and> mapZoom (app ?end) = mapZoom (app ss)"
    if "\<forall>ev \<in> set evs. \<not> moves ev"
  proof -
    have "mapCenter (app ?ss2) = mapCenter (app ?ss1) \<and> mapZoom (app ?ss2) = mapZoom (app ?ss1)"
      using run_no_move [OF that, of ?ss1] by (simp add: run_Cons)
    then show ?thesis
      unfolding app_end by (simp add: handleSearch_dispatch_def)
  qed
  have handler: "handleSearch_settled (Inl e) s
           = s\<lparr>summary := ''Sorry, I couldn't find that place. Please try again.'', isLoading := False\<rparr>"
    by (simp add: handleSearch_settled_def)
  have overlap: "published (app (run ss [Search a, Search b, Settle (Suc (length (in_flight ss))) (Inr rb),
                                 Settle (length (in_flight ss)) (Inl e)]))
           = (''Sorry, I couldn't find that place. Please try again.'', response_places rb, response_sources rb)"
    by (simp add: run_def published_def handleSearch_dispatch_def handleSearch_settled_def Let_def split_beta)
  have transport: "\<exists>e'. sendMessageToGemini apiKey random (Inl e) = Inl e'"
    by (simp add: sendMessageToGemini_def)
  from cleared failed idle view handler overlap transport show ?thesis by blast
qed

theorem failed_search_outcome_witness:
  "\<not> publishes (Search ''parks'') \<and> \<not> publishes (Settle 0 (Inl TransportError))
   \<and> \<not> moves (Search ''parks'') \<and> \<not> moves (Settle 0 (Inl TransportError))
   \<and> 0 < length (in_flight (run
       \<lparr>app =
          \<lparr>places = [\<lparr>place_id = ''p0'', name = ''Harbour'',
                       coordinate = \<lparr>lat = Num 54, lng = Num 10\<rparr>, description = None\<rparr>],
           summary = ''Harbour (lat: 54, lng: 10)'',
           sources = [\<lparr>uri = ''https://example.org/h'', title = ''Harbour''\<rparr>],
           isLoading = False, userLocation = None,
           mapCenter = \<lparr>lat = Num 54, lng = Num 10\<rparr>, mapZoom = 12,
           selectedPlaceId = None, previousViewState = None, searchResultsBackup = None\<rparr>,
        in_flight = []\<rparr>
       (Search ''museums'' # [Search ''parks'', Settle 0 (Inl TransportError)])))
   \<and> published (app (run
       \<lparr>app =
          \<lparr>places = [\<lparr>place_id = ''p0'', name = ''Harbour'',
                       coordinate = \<lparr>lat = Num 54, lng = Num 10\<rparr>, description = None\<rparr>],
           summary = ''Harbour (lat: 54, lng: 10)'',
           sources = [\<lparr>uri = ''https://example.org/h'', title = ''Harbour''\<rparr>],
           isLoading = False, userLocation = None,
           mapCenter = \<lparr>lat = Num 54, lng = Num 10\<rparr>, mapZoom = 12,
           selectedPlaceId = None, previousViewState = None, searchResultsBackup = None\<rparr>,
        in_flight = []\<rparr>
       (Search ''museums'' # [Search ''parks'', Settle 0 (Inl TransportError)] @ [Settle 0 (Inl TransportError)])))
     = (''Sorry, I couldn't find that place. Please try again.'', [], [])
   \<and> mapCenter (app (run
       \<lparr>app =
          \<lparr>places = [\<lparr>place_id = ''p0'', name = ''Harbour'',
                       coordinate = \<lparr>lat = Num 54, lng = Num 10\<rparr>, description = None\<rparr>],
           summary = ''Harbour (lat: 54, lng: 10)'',
           sources = [\<lparr>uri = ''https://example.org/h'', title = ''Harbour''\<rparr>],
           isLoading = False, userLocation = None,
           mapCenter = \<lparr>lat = Num 54, lng = Num 10\<rparr>, mapZoom = 12,
           selectedPlaceId = None, previousViewState = None, searchResultsBackup = None\<rparr>,
        in_flight = []\<rparr>
       (Search ''museums'' # [Search ''parks'', Settle 0 (Inl TransportError)] @ [Settle 0 (Inl TransportError)])))
     = \<lparr>lat = Num 54, lng = Num 10\<rparr>"
  using failed_search_outcome
    [of "[Search ''parks'', Settle 0 (Inl TransportError)]" 0
        "\<lparr>app =
          \<lparr>places = [\<lparr>place_id = ''p0'', name = ''Harbour'',
                       coordinate = \<lparr>lat = Num 54, lng = Num 10\<rparr>, description = None\<rparr>],
           summary = ''Harbour (lat: 54, lng: 10)'',
           sources = [\<lparr>uri = ''https://example.org/h'', title = ''Harbour''\<rparr>],
           isLoading = False, userLocation = None,
           mapCenter = \<lparr>lat = Num 54, lng = Num 10\<rparr>, mapZoom = 12,
           selectedPlaceId = None, previousViewState = None, searchResultsBackup = None\<rparr>,
        in_flight = []\<rparr>"
        "''museums''" TransportError]
  by (simp add: run_def handleSearch_dispatch_def handleSearch_settled_def)

theorem failed_search_wipes_result:
  "published
     \<lparr>places = [\<lparr>place_id = ''p1'', name = ''Old Town'',
                  coordinate = \<lparr>lat = Num 48, lng = Num 11\<rparr>, description = None\<rparr>],
      summary = ''Old Town (lat: 48, lng: 11)'',
      sources = [\<lparr>uri = ''https://example.org'', title = ''Example''\<rparr>],
      isLoading = False, userLocation = None,
      mapCenter = \<lparr>lat = Num 48, lng = Num 11\<rparr>, mapZoom = 13,
      selectedPlaceId = None, previousViewState = None, searchResultsBackup = None\<rparr>
   \<noteq> published (app (run
     \<lparr>app =
        \<lparr>places = [\<lparr>place_id = ''p1'', name = ''Old Town'',
                     coordinate = \<lparr>lat = Num 48, lng = Num 11\<rparr>, description = None\<rparr>],
         summary = ''Old Town (lat: 48, lng: 11)'',
         sources = [\<lparr>uri = ''https://example.org'', title = ''Example''\<rparr>],
         isLoading = False, userLocation = None,
         mapCenter = \<lparr>lat = Num 48, lng = Num 11\<rparr>, mapZoom = 13,
         selectedPlaceId = None, previousViewState = None, searchResultsBackup = None\<rparr>,
      in_flight = []\<rparr>
     [Search ''museums'', Settle 0 (Inl TransportError)]))"
  by (simp add: run_def published_def handleSearch_dispatch_def handleSearch_settled_def)

text \<open>
  C3. The claim says that when query B is submitted before the call of query A
  resolves, A's late completion is not published. The completion handler has no
  generation counter and does not know which query a response answers: every
  completion overwrites the published result. So with A and B both pending, the
  published result after both completions is the one that completed last: A's when A
  completes after B, B's when B completes after A.
\<close>

theorem last_completion_wins:
  "published (app (run ss [Search a, Search b, Settle (Suc (length (in_flight ss))) (Inr rb),
                           Settle (length (in_flight ss)) (Inr ra)])) = result_of ra
   \<and> published (app (run ss [Search a, Search b, Settle (length (in_flight ss)) (Inr ra),
                           Settle (length (in_flight ss)) (Inr rb)])) = result_of rb
   \<and> (if i < length (in_flight ss) then published (app (step ss (Settle i (Inr r)))) = result_of r
       else step ss (Settle i (Inr r)) = ss)"
  by (simp add: run_def published_def result_of_def handleSearch_dispatch_def
        handleSearch_settled_def Let_def split_beta)

theorem stale_response_published:
  "published (app (run
     \<lparr>app =
        \<lparr>places = [], summary = [], sources = [], isLoading = False, userLocation = None,
         mapCenter = \<lparr>lat = Num 48, lng = Num 11\<rparr>, mapZoom = 13,
         selectedPlaceId = None, previousViewState = None, searchResultsBackup = None\<rparr>,
      in_flight = []\<rparr>
     [Search ''query A'', Search ''query B'',
      Settle 1 (Inr \<lparr>response_text = ''answer to B'', response_places = [], response_sources = []\<rparr>),
      Settle 0 (Inr \<lparr>response_text = ''answer to A'', response_places = [], response_sources = []\<rparr>)]))
   = result_of \<lparr>response_text = ''answer to A'', response_places = [], response_sources = []\<rparr>
   \<and> result_of \<lparr>response_text = ''answer to A'', response_places = [], response_sources = []\<rparr>
     \<noteq> result_of \<lparr>response_text = ''answer to B'', response_places = [], response_sources = []\<rparr>"
  by (simp add: run_def published_def result_of_def handleSearch_dispatch_def handleSearch_settled_def)

text \<open>
  C9. For every gesture-completion event \<open>(newCenter, newZoom)\<close> the handler sets the
  map centre and the zoom and also overwrites the stored user location with the new
  centre, leaving every other field as it was; the next query is therefore dispatched
  with the map centre as its location bias.
\<close>

theorem handleMapMove_overwrites_userLocation:
  "mapCenter (handleMapMove c z s) = c
   \<and> mapZoom (handleMapMove c z s) = z
   \<and> userLocation (handleMapMove c z s) = Some c
   \<and> handleMapMove c z s = s\<lparr>userLocation := Some c, mapCenter := c, mapZoom := z\<rparr>
   \<and> places (handleMapMove c z s) = places s
   \<and> summary (handleMapMove c z s) = summary s
   \<and> sources (handleMapMove c z s) = sources s
   \<and> previousViewState (handleMapMove c z s) = previousViewState s
   \<and> snd (handleSearch_dispatch q (handleMapMove c z s)) = (q, Some c)
   \<and> app (step \<lparr>app = s, in_flight = pending\<rparr> (MapMove c z)) = handleMapMove c z s"
  by (simp add: handleMapMove_def handleSearch_dispatch_def)

section \<open>Properties of the map view\<close>

subsection \<open>Rounding\<close>

text \<open>
  A real is rounded by finding the power of two below its magnitude and the integer
  multiple of the unit nearest to it; a real that is such a multiple is stored as it
  is.
\<close>

lemma floor_log2_eq:
  assumes "2 powi k \<le> \<bar>x\<bar>" and "\<bar>x\<bar> < 2 powi (k + 1)"
  shows "\<lfloor>log 2 \<bar>x\<bar>\<rfloor> = k"
proof -
  have pos: "0 < \<bar>x\<bar>"
    using assms(1) by (smt (verit) zero_less_power_int)
  have "(2::real) powr (of_int k) = 2 powi k"
    by (simp add: powr_real_of_int')
  moreover have "(2::real) powr (of_int k + 1) = 2 powi (k + 1)"
    using powr_real_of_int' [of 2 "k + 1"] by simp
  ultimately show ?thesis
    using assms by (subst floor_log_eq_powr_iff [OF pos]) simp_all
qed

lemma binary64_eqI:
  assumes "2 powi k \<le> \<bar>x\<bar>" and "\<bar>x\<bar> < 2 powi (k + 1)"
    and "e = max k (- 1022) - 52"
    and "\<bar>x / 2 powi e - of_int n\<bar> < 1 / 2"
  shows "binary64 x = of_int n * 2 powi e"
proof -
  have nz: "x \<noteq> 0"
    using assms(1) by (smt (verit) zero_less_power_int)
  have e: "max \<lfloor>log 2 \<bar>x\<bar>\<rfloor> (- 1022) - 52 = e"
    by (simp add: floor_log2_eq [OF assms(1,2)] assms(3))
  let ?q = "x / 2 powi e"
  consider "of_int n \<le> ?q" | "?q < of_int n" by linarith
  then have "(if ?q - of_int \<lfloor>?q\<rfloor> < 1 / 2 then of_int \<lfloor>?q\<rfloor>
              else if 1 / 2 < ?q - of_int \<lfloor>?q\<rfloor> then of_int (\<lfloor>?q\<rfloor> + 1)
              else if even \<lfloor>?q\<rfloor> then of_int \<lfloor>?q\<rfloor> else of_int (\<lfloor>?q\<rfloor> + 1)) = (of_int n :: real)"
  proof cases
    case 1
    with assms(4) have "\<lfloor>?q\<rfloor> = n" by (intro floor_unique) linarith+
    with assms(4) 1 show ?thesis by simp
  next
    case 2
    with assms(4) have "of_int (n - 1) \<le> ?q" "?q < of_int (n - 1) + 1"
      by (simp_all add: abs_less_iff)
    then have f: "\<lfloor>?q\<rfloor> = n - 1" by (rule floor_unique)
    have "1 / 2 < ?q - of_int (n - 1)" using assms(4) 2 by simp
    then show ?thesis unfolding f by simp
  qed
  then show ?thesis
    by (simp add: binary64_def nz e Let_def)
qed

lemma binary64_exact:
  assumes "2 powi k \<le> \<bar>x\<bar>" and "\<bar>x\<bar> < 2 powi (k + 1)"
    and "x / 2 powi (max k (- 1022) - 52) = of_int n"
  shows "binary64 x = x"
proof -
  have "binary64 x = of_int n * 2 powi (max k (- 1022) - 52)"
    by (rule binary64_eqI [OF assms(1,2) refl]) (simp add: assms(3))
  also have "\<dots> = x"
    using assms(3) by (simp add: field_simps)
  finally show ?thesis .
qed

lemma binary64_zero [simp]: "binary64 0 = 0"
  by (simp add: binary64_def)

lemma binary64_sqrt_eqI:
  assumes "(2 powi k)\<^sup>2 \<le> s" and "s < (2 powi (k + 1))\<^sup>2"
    and "e = max k (- 1022) - 52"
    and "1 \<le> n"
    and "((of_int n - 1 / 2) * 2 powi e)\<^sup>2 < s" and "s < ((of_int n + 1 / 2) * 2 powi e)\<^sup>2"
  shows "binary64 (sqrt s) = of_int n * 2 powi e"
proof (rule binary64_eqI [where k = k])
  have p: "(0::real) < 2 powi e" "(0::real) < 2 powi k" "(0::real) < 2 powi (k + 1)"
    by simp_all
  have s: "0 \<le> s" using assms(1) by (smt (verit) zero_le_power2)
  have "2 powi k \<le> sqrt s"
    using assms(1) p by (intro real_le_rsqrt)
  then show "2 powi k \<le> \<bar>sqrt s\<bar>" by simp
  have "sqrt s < 2 powi (k + 1)"
    using assms(2) p by (intro real_less_lsqrt) simp_all
  then show "\<bar>sqrt s\<bar> < 2 powi (k + 1)" using s by simp
  show "e = max k (- 1022) - 52" by fact
  have lo: "(of_int n - 1 / 2) * 2 powi e < sqrt s"
    using assms(5) by (intro real_less_rsqrt)
  have "0 \<le> (of_int n + 1 / 2) * (2::real) powi e"
    using assms(4) by (intro mult_nonneg_nonneg) simp_all
  then have hi: "sqrt s < (of_int n + 1 / 2) * 2 powi e"
    using assms(6) by (intro real_less_lsqrt)
  from lo hi p(1) have "of_int n - 1 / 2 < sqrt s / 2 powi e" "sqrt s / 2 powi e < of_int n + 1 / 2"
    by (simp_all add: field_simps)
  then show "\<bar>sqrt s / 2 powi e - of_int n\<bar> < 1 / 2" by linarith
qed

lemma binary64_epsilon: "binary64 (1 / 10000) = 7378697629483821 / 73786976294838206464"
  using binary64_eqI [of "- 14" "1 / 10000" "- 66" 7378697629483821] by simp

lemma dist_same:
  assumes "isValidLatLng (lat c) (lng c)"
  shows "dist c c = Num 0"
proof -
  obtain a b where "lat c = Num a" "lng c = Num b"
    using assms by (cases "lat c"; cases "lng c") (simp_all add: isValidLatLng_def)
  then show ?thesis by (simp add: dist_def)
qed

text \<open>
  At the threshold the rounding decides. With the map centred on latitude 1 and the
  binary64 nearest to longitude 2.0001, and the candidate centre at (1, 2), the
  computed distance is above the binary64 nearest to 0.0001.
\<close>

lemma dist_at_threshold:
  "dist \<lparr>lat = Num 1, lng = Num (binary64 (20001 / 10000))\<rparr> \<lparr>lat = Num 1, lng = Num 2\<rparr>
     = Num (225179981369 / 2251799813685248)
   \<and> num_lt (Num (binary64 (1 / 10000)))
        (dist \<lparr>lat = Num 1, lng = Num (binary64 (20001 / 10000))\<rparr> \<lparr>lat = Num 1, lng = Num 2\<rparr>)"
proof -
  have 1: "binary64 (20001 / 10000) = 4503824807351865 / 2251799813685248"
    using binary64_eqI [of 1 "20001 / 10000" "- 51" 4503824807351865] by simp
  have 2: "float_sub (Num (4503824807351865 / 2251799813685248)) (Num 2)
             = Num (225179981369 / 2251799813685248)"
    using binary64_exact [of "- 14" "4503824807351865 / 2251799813685248 - 2" 7378697629499392] by simp
  have 3: "Math_pow2 (Num (225179981369 / 2251799813685248))
             = Num (3022314549049329 / 302231454903657293676544)"
    using binary64_eqI [of "- 27" "(225179981369 / 2251799813685248)\<^sup>2" "- 79" 6044629098098658]
    by (simp add: power2_eq_square)
  have 4: "float_add (Num 0) (Num (3022314549049329 / 302231454903657293676544))
             = Num (3022314549049329 / 302231454903657293676544)"
    using binary64_exact [of "- 27" "3022314549049329 / 302231454903657293676544" 6044629098098658] by simp
  have 5: "Math_sqrt (Num (3022314549049329 / 302231454903657293676544))
             = Num (225179981369 / 2251799813685248)"
    using binary64_sqrt_eqI [of "- 14" "3022314549049329 / 302231454903657293676544" "- 66" 7378697629499392]
    by (simp add: power2_eq_square)
  have 0: "float_sub (Num 1) (Num 1) = Num 0" "Math_pow2 (Num 0) = Num 0"
    by simp_all
  have d: "dist \<lparr>lat = Num 1, lng = Num (binary64 (20001 / 10000))\<rparr> \<lparr>lat = Num 1, lng = Num 2\<rparr>
             = Num (225179981369 / 2251799813685248)"
    unfolding dist_def 1 LatLng.select_convs 0 2 3 4 5 ..
  show ?thesis
    unfolding d by (simp add: binary64_epsilon)
qed

text \<open>
  With the map centred on longitude 0.0001 (the binary64 nearest to it) and the
  candidate centre at (0, 0), the computed distance is that same binary64, which is
  above the real 0.0001 and not above the threshold.
\<close>

lemma dist_equal_to_threshold:
  "dist \<lparr>lat = Num 0, lng = Num (binary64 (1 / 10000))\<rparr> \<lparr>lat = Num 0, lng = Num 0\<rparr>
     = Num (binary64 (1 / 10000))
   \<and> 1 / 10000 < binary64 (1 / 10000)
   \<and> \<not> num_lt (Num (binary64 (1 / 10000)))
          (dist \<lparr>lat = Num 0, lng = Num (binary64 (1 / 10000))\<rparr> \<lparr>lat = Num 0, lng = Num 0\<rparr>)"
proof -
  have 2: "float_sub (Num (7378697629483821 / 73786976294838206464)) (Num 0)
             = Num (7378697629483821 / 73786976294838206464)"
    using binary64_exact [of "- 14" "7378697629483821 / 73786976294838206464" 7378697629483821] by simp
  have 3: "Math_pow2 (Num (7378697629483821 / 73786976294838206464))
             = Num (3022314549036573 / 302231454903657293676544)"
    using binary64_eqI [of "- 27" "(7378697629483821 / 73786976294838206464)\<^sup>2" "- 79" 6044629098073146]
    by (simp add: power2_eq_square)
  have 4: "float_add (Num 0) (Num (3022314549036573 / 302231454903657293676544))
             = Num (3022314549036573 / 302231454903657293676544)"
    using binary64_exact [of "- 27" "3022314549036573 / 302231454903657293676544" 6044629098073146] by simp
  have 5: "Math_sqrt (Num (3022314549036573 / 302231454903657293676544))
             = Num (7378697629483821 / 73786976294838206464)"
    using binary64_sqrt_eqI [of "- 14" "3022314549036573 / 302231454903657293676544" "- 66" 7378697629483821]
    by (simp add: power2_eq_square)
  have 0: "float_sub (Num 0) (Num 0) = Num 0" "Math_pow2 (Num 0) = Num 0"
    by simp_all
  have d: "dist \<lparr>lat = Num 0, lng = Num (binary64 (1 / 10000))\<rparr> \<lparr>lat = Num 0, lng = Num 0\<rparr>
             = Num (binary64 (1 / 10000))"
    unfolding dist_def binary64_epsilon LatLng.select_convs 0 2 3 4 5 ..
  show ?thesis
    unfolding d by (simp add: binary64_epsilon)
qed

subsection \<open>Bounds\<close>

lemma foldl_extend_encloses:
  assumes "\<forall>p \<in> set pts. \<exists>a b. p = (Num a, Num b)"
  shows "\<exists>s' w' n' e'. foldl extend_bounds (Some \<lparr>south = Num s, west = Num w, north = Num n, east = Num e\<rparr>) pts
            = Some \<lparr>south = Num s', west = Num w', north = Num n', east = Num e'\<rparr>
          \<and> s' \<le> s \<and> w' \<le> w \<and> n \<le> n' \<and> e \<le> e'
          \<and> (\<forall>p \<in> set pts. \<exists>a b. p = (Num a, Num b) \<and> s' \<le> a \<and> a \<le> n' \<and> w' \<le> b \<and> b \<le> e')"
  using assms
proof (induction pts arbitrary: s w n e)
  case Nil
  then show ?case by simp
next
  case (Cons p pts)
  then obtain a b where p: "p = (Num a, Num b)" by auto
  from Cons.prems have tail: "\<forall>p \<in> set pts. \<exists>a b. p = (Num a, Num b)" by simp
  from Cons.IH [OF tail, of "min s a" "min w b" "max n a" "max e b"]
  obtain s' w' n' e' where
    f: "foldl extend_bounds (Some \<lparr>south = Num (min s a), west = Num (min w b), north = Num (max n a), east = Num (max e b)\<rparr>) pts
          = Some \<lparr>south = Num s', west = Num w', north = Num n', east = Num e'\<rparr>"
    and le: "s' \<le> min s a" "w' \<le> min w b" "max n a \<le> n'" "max e b \<le> e'"
    and ins: "\<forall>p \<in> set pts. \<exists>a b. p = (Num a, Num b) \<and> s' \<le> a \<and> a \<le> n' \<and> w' \<le> b \<and> b \<le> e'"
    by blast
  show ?case
    apply (rule exI [of _ s'], rule exI [of _ w'], rule exI [of _ n'], rule exI [of _ e'])
    using f le ins by (simp add: p)
qed

lemma latLngBounds_encloses:
  assumes "pts \<noteq> []" and "\<forall>p \<in> set pts. \<exists>a b. p = (Num a, Num b)"
  shows "\<exists>r. latLngBounds pts = Some r \<and> (\<forall>p \<in> set pts. encloses r \<lparr>lat = fst p, lng = snd p\<rparr>)"
proof -
  from assms obtain p ps where pts: "pts = p # ps" by (cases pts) auto
  with assms obtain a b where p: "p = (Num a, Num b)" by auto
  from assms pts have tail: "\<forall>p \<in> set ps. \<exists>a b. p = (Num a, Num b)" by simp
  from foldl_extend_encloses [OF tail, of a b a b]
  obtain s' w' n' e' where
    f: "foldl extend_bounds (Some \<lparr>south = Num a, west = Num b, north = Num a, east = Num b\<rparr>) ps
          = Some \<lparr>south = Num s', west = Num w', north = Num n', east = Num e'\<rparr>"
    and le: "s' \<le> a" "w' \<le> b" "a \<le> n'" "b \<le> e'"
    and ins: "\<forall>p \<in> set ps. \<exists>a b. p = (Num a, Num b) \<and> s' \<le> a \<and> a \<le> n' \<and> w' \<le> b \<and> b \<le> e'"
    by blast
  have "latLngBounds pts = Some \<lparr>south = Num s', west = Num w', north = Num n', east = Num e'\<rparr>"
    by (simp add: latLngBounds_def pts p f)
  moreover have "\<forall>q \<in> set pts. encloses \<lparr>south = Num s', west = Num w', north = Num n', east = Num e'\<rparr> \<lparr>lat = fst q, lng = snd q\<rparr>"
    using le ins by (auto simp: pts p encloses_def)
  ultimately show ?thesis by blast
qed

lemma valid_is_Num: "isValidLatLng x y \<Longrightarrow> \<exists>a b. (x, y) = (Num a, Num b)"
  by (cases x; cases y) (simp_all add: isValidLatLng_def)

subsection \<open>The effect\<close>

text \<open>
  Given an array that is not the one in the ref and holds a place with valid
  coordinates, the effect fits the bounds of the valid places, whatever the candidate
  centre and zoom and the map's own view are, and the ref then holds the array.
\<close>

lemma MapUpdater_fits:
  assumes "isValidLatLng (lat center) (lng center)"
    and "array_ref P \<noteq> prev"
    and "\<exists>p \<in> set (array_elems P). isValidLatLng (lat (coordinate p)) (lng (coordinate p))"
  shows "\<exists>b. MapUpdater center zoom P m prev = (Some (FitBounds b (50, 50) 16), array_ref P)
             \<and> (\<forall>p \<in> set (array_elems P).
                   isValidLatLng (lat (coordinate p)) (lng (coordinate p)) \<longrightarrow> encloses b (coordinate p))"
proof -
  let ?valid = "filter (\<lambda>p. isValidLatLng (lat (coordinate p)) (lng (coordinate p))) (array_elems P)"
  let ?pts = "map (\<lambda>p. (lat (coordinate p), lng (coordinate p))) ?valid"
  from assms(3) have ne: "?pts \<noteq> []" by (auto simp: filter_empty_conv)
  then have elems: "array_elems P \<noteq> []" by auto
  have nums: "\<forall>q \<in> set ?pts. \<exists>a b. q = (Num a, Num b)"
    using valid_is_Num by auto
  from latLngBounds_encloses [OF ne nums]
  obtain r where r: "latLngBounds ?pts = Some r"
    and enc: "\<forall>q \<in> set ?pts. encloses r \<lparr>lat = fst q, lng = snd q\<rparr>" by blast
  have "MapUpdater center zoom P m prev = (Some (FitBounds r (50, 50) 16), array_ref P)"
    using assms(1,2) elems ne r by (simp add: MapUpdater_def Let_def)
  moreover have "\<forall>p \<in> set (array_elems P).
      isValidLatLng (lat (coordinate p)) (lng (coordinate p)) \<longrightarrow> encloses r (coordinate p)"
    using enc by (auto simp: encloses_def)
  ultimately show ?thesis by blast
qed

text \<open>
  Given the array in the ref, or an empty one, and valid coordinates for the candidate
  centre and for the map's centre, the effect flies to the candidate view exactly when
  the computed distance is above the threshold or the zoom differs; the ref keeps what
  it held.
\<close>

lemma MapUpdater_flies:
  assumes "isValidLatLng (lat center) (lng center)"
    and "array_ref P = prev \<or> array_elems P = []"
    and "isValidLatLng (lat (getCenter m)) (lng (getCenter m))"
  shows "MapUpdater center zoom P m prev =
           (if num_lt (Num (binary64 (1 / 10000))) (dist (getCenter m) center) \<or> getZoom m \<noteq> zoom
            then Some (FlyTo (lat center) (lng center) zoom (3 / 2)) else None,
            prev)"
  using assms by (auto simp: MapUpdater_def Let_def)

subsection \<open>The component\<close>

text \<open>
  The centre \<^verbatim>\<open>MapComponent\<close> hands on is valid, and so is every place.
\<close>

lemma safeCenter_valid: "isValidLatLng (lat (safeCenter center)) (lng (safeCenter center))"
  by (simp add: safeCenter_def isValidLatLng_def)

text \<open>
  An array made at a render is never the one in the ref, as long as the ref holds an
  array made earlier; every render keeps it so.
\<close>

lemma MapComponent_next_array:
  assumes "prevPlacesRef_current v < next_array v"
  shows "prevPlacesRef_current (snd (MapComponent center zoom ps m v))
           < next_array (snd (MapComponent center zoom ps m v))"
proof -
  have "snd (MapUpdater c z P m' prev) = prev \<or> snd (MapUpdater c z P m' prev) = array_ref P"
    for c z P m' prev
    by (simp add: MapUpdater_def Let_def)
  from this [of "safeCenter center" zoom
      "\<lparr>array_ref = next_array v, array_elems = safePlaces ps\<rparr>" m "prevPlacesRef_current v"] assms
  show ?thesis
    by (auto simp: MapComponent_def split_beta)
qed

text \<open>
  So every render with a place that has valid coordinates fits the bounds of the valid
  places, also when the same places were rendered before.
\<close>

lemma MapComponent_fits_at_every_render:
  assumes "prevPlacesRef_current v < next_array v"
    and "\<exists>p \<in> set ps. isValidLatLng (lat (coordinate p)) (lng (coordinate p))"
  shows "\<exists>b. fst (MapComponent center zoom ps m v) = Some (FitBounds b (50, 50) 16)
             \<and> (\<forall>p \<in> set ps.
                   isValidLatLng (lat (coordinate p)) (lng (coordinate p)) \<longrightarrow> encloses b (coordinate p))"
proof -
  let ?P = "\<lparr>array_ref = next_array v, array_elems = safePlaces ps\<rparr>"
  have "array_ref ?P \<noteq> prevPlacesRef_current v"
    using assms(1) by simp
  moreover have "\<exists>p \<in> set (array_elems ?P). isValidLatLng (lat (coordinate p)) (lng (coordinate p))"
    using assms(2) by (auto simp: safePlaces_def)
  ultimately obtain b where
    b: "MapUpdater (safeCenter center) zoom ?P m (prevPlacesRef_current v)
          = (Some (FitBounds b (50, 50) 16), array_ref ?P)"
    and enc: "\<forall>p \<in> set (array_elems ?P).
                isValidLatLng (lat (coordinate p)) (lng (coordinate p)) \<longrightarrow> encloses b (coordinate p)"
    using MapUpdater_fits [OF safeCenter_valid, of ?P "prevPlacesRef_current v" center zoom m] by blast
  have "fst (MapComponent center zoom ps m v) = Some (FitBounds b (50, 50) 16)"
    using b by (simp add: MapComponent_def)
  moreover have "\<forall>p \<in> set ps.
      isValidLatLng (lat (coordinate p)) (lng (coordinate p)) \<longrightarrow> encloses b (coordinate p)"
    using enc by (simp add: safePlaces_def)
  ultimately show ?thesis by blast
qed

text \<open>
  A render without a place that has valid coordinates reaches the second branch of the
  effect: when the map's centre is valid, the effect flies to the candidate view
  exactly when the computed distance is above the threshold or the zoom differs, and
  a candidate view equal to the map's view makes no call.
\<close>

lemma MapComponent_flies_without_places:
  assumes "\<not> (\<exists>p \<in> set ps. isValidLatLng (lat (coordinate p)) (lng (coordinate p)))"
    and "isValidLatLng (lat (getCenter m)) (lng (getCenter m))"
  shows "fst (MapComponent center zoom ps m v) =
           (if num_lt (Num (binary64 (1 / 10000))) (dist (getCenter m) (safeCenter center))
               \<or> getZoom m \<noteq> zoom
            then Some (FlyTo (lat (safeCenter center)) (lng (safeCenter center)) zoom (3 / 2))
            else None)"
    and "center = getCenter m \<Longrightarrow> zoom = getZoom m \<Longrightarrow> fst (MapComponent center zoom ps m v) = None"
proof -
  let ?P = "\<lparr>array_ref = next_array v, array_elems = safePlaces ps\<rparr>"
  have "array_elems ?P = []"
    using assms(1) by (auto simp: safePlaces_def filter_empty_conv)
  then have "array_ref ?P = prevPlacesRef_current v \<or> array_elems ?P = []" ..
  from MapUpdater_flies [OF safeCenter_valid this assms(2), of center zoom]
  show 1: "fst (MapComponent center zoom ps m v) =
           (if num_lt (Num (binary64 (1 / 10000))) (dist (getCenter m) (safeCenter center))
               \<or> getZoom m \<noteq> zoom
            then Some (FlyTo (lat (safeCenter center)) (lng (safeCenter center)) zoom (3 / 2))
            else None)"
    by (simp add: MapComponent_def)
  assume "center = getCenter m" "zoom = getZoom m"
  with assms(2) have "safeCenter center = getCenter m" "dist (getCenter m) (getCenter m) = Num 0"
    by (simp_all add: safeCenter_def dist_same)
  with \<open>zoom = getZoom m\<close> show "fst (MapComponent center zoom ps m v) = None"
    unfolding 1 by (simp add: binary64_epsilon)
qed

text \<open>
  What the ref holds has no influence on the call: from mount on, every render makes
  the call that the first render would make with the same props and the same view of
  the map.
\<close>

lemma MapComponent_ignores_ref:
  assumes "prevPlacesRef_current v < next_array v"
  shows "fst (MapComponent center zoom ps m v) = fst (MapComponent center zoom ps m mount)"
  using assms by (simp add: MapComponent_def MapUpdater_def mount_def Let_def split_beta)

lemma renders_ignore_ref:
  assumes "prevPlacesRef_current v < next_array v"
  shows "renders rs v = map (\<lambda>(center, zoom, ps, m). fst (MapComponent center zoom ps m mount)) rs"
  using assms
proof (induction rs arbitrary: v)
  case Nil
  then show ?case by simp
next
  case (Cons r rs)
  obtain center zoom ps m where r: "r = (center, zoom, ps, m)"
    by (cases r) auto
  from Cons.IH [OF MapComponent_next_array [OF Cons.prems, of center zoom ps m]]
    MapComponent_ignores_ref [OF Cons.prems, of center zoom ps m]
  show ?case by (simp add: r split_beta)
qed

lemma renders_from_mount:
  "renders rs mount = map (\<lambda>(center, zoom, ps, m). fst (MapComponent center zoom ps m mount)) rs"
  by (rule renders_ignore_ref) (simp add: mount_def)

text \<open>
  C5. The claim says that the bounds are fitted once for a new, non-empty place set
  and never again when the same set is rendered again. \<^verbatim>\<open>MapUpdater\<close> keeps the
  array it fitted in a ref and compares the next array with it, and its comment reads
  ``If places changed (new search results), prioritize fitting bounds''. But
  \<^verbatim>\<open>MapComponent\<close> filters the places into a new array at every render, so the
  array \<^verbatim>\<open>MapUpdater\<close> receives is never the one in the ref. Rendering the same two
  places a second time, with the same centre and zoom, fits the bounds a second time.
\<close>

theorem MapComponent_fits_again:
  "renders
     [(\<lparr>lat = Num 48, lng = Num 11\<rparr>, 13,
       [\<lparr>place_id = ''a'', name = ''Museum'', coordinate = \<lparr>lat = Num (193 / 4), lng = Num (23 / 2)\<rparr>,
         description = None\<rparr>,
        \<lparr>place_id = ''b'', name = ''Garden'', coordinate = \<lparr>lat = Num (97 / 2), lng = Num (47 / 4)\<rparr>,
         description = None\<rparr>],
       \<lparr>getCenter = \<lparr>lat = Num 48, lng = Num 11\<rparr>, getZoom = 13\<rparr>),
      (\<lparr>lat = Num 48, lng = Num 11\<rparr>, 13,
       [\<lparr>place_id = ''a'', name = ''Museum'', coordinate = \<lparr>lat = Num (193 / 4), lng = Num (23 / 2)\<rparr>,
         description = None\<rparr>,
        \<lparr>place_id = ''b'', name = ''Garden'', coordinate = \<lparr>lat = Num (97 / 2), lng = Num (47 / 4)\<rparr>,
         description = None\<rparr>],
       \<lparr>getCenter = \<lparr>lat = Num (387 / 8), lng = Num (93 / 8)\<rparr>, getZoom = 11\<rparr>)]
     mount
   = [Some (FitBounds \<lparr>south = Num (193 / 4), west = Num (23 / 2), north = Num (97 / 2), east = Num (47 / 4)\<rparr>
              (50, 50) 16),
      Some (FitBounds \<lparr>south = Num (193 / 4), west = Num (23 / 2), north = Num (97 / 2), east = Num (47 / 4)\<rparr>
              (50, 50) 16)]"
  by (simp add: mount_def MapComponent_def MapUpdater_def safeCenter_def safePlaces_def
        isValidLatLng_def latLngBounds_def)

text \<open>
  C6. The claim says that with the place set unchanged the effect flies to the
  candidate view exactly when the candidate centre is more than 0.0001 degrees from
  the map's centre or the zoom differs, and that a report equal to the map's own view
  makes no call. The second branch of the effect does this, and its comment reads
  ``This handles "Go to Location" clicks or selecting a marker''. With places on the
  map the branch is never reached, because the array \<^verbatim>\<open>MapUpdater\<close> receives is
  new at every render. After a first render of two places, selecting the first one
  (its coordinate as the centre, zoom 16, the map still at zoom 12) fits the bounds of
  both places and does not fly to the one selected; and a report of the view the map
  already has fits the bounds again instead of making no call.
\<close>

theorem MapComponent_selection_does_not_fly:
  "renders
     [(\<lparr>lat = Num 52, lng = Num 13\<rparr>, 13,
       [\<lparr>place_id = ''c'', name = ''Tower'', coordinate = \<lparr>lat = Num (105 / 2), lng = Num (53 / 4)\<rparr>,
         description = None\<rparr>,
        \<lparr>place_id = ''d'', name = ''Bridge'', coordinate = \<lparr>lat = Num (211 / 4), lng = Num (27 / 2)\<rparr>,
         description = None\<rparr>],
       \<lparr>getCenter = \<lparr>lat = Num 52, lng = Num 13\<rparr>, getZoom = 13\<rparr>),
      (\<lparr>lat = Num (105 / 2), lng = Num (53 / 4)\<rparr>, 16,
       [\<lparr>place_id = ''c'', name = ''Tower'', coordinate = \<lparr>lat = Num (105 / 2), lng = Num (53 / 4)\<rparr>,
         description = None\<rparr>,
        \<lparr>place_id = ''d'', name = ''Bridge'', coordinate = \<lparr>lat = Num (211 / 4), lng = Num (27 / 2)\<rparr>,
         description = None\<rparr>],
       \<lparr>getCenter = \<lparr>lat = Num (421 / 8), lng = Num (107 / 8)\<rparr>, getZoom = 12\<rparr>),
      (\<lparr>lat = Num (421 / 8), lng = Num (107 / 8)\<rparr>, 12,
       [\<lparr>place_id = ''c'', name = ''Tower'', coordinate = \<lparr>lat = Num (105 / 2), lng = Num (53 / 4)\<rparr>,
         description = None\<rparr>,
        \<lparr>place_id = ''d'', name = ''Bridge'', coordinate = \<lparr>lat = Num (211 / 4), lng = Num (27 / 2)\<rparr>,
         description = None\<rparr>],
       \<lparr>getCenter = \<lparr>lat = Num (421 / 8), lng = Num (107 / 8)\<rparr>, getZoom = 12\<rparr>)]
     mount
   = [Some (FitBounds \<lparr>south = Num (105 / 2), west = Num (53 / 4), north = Num (211 / 4), east = Num (27 / 2)\<rparr>
              (50, 50) 16),
      Some (FitBounds \<lparr>south = Num (105 / 2), west = Num (53 / 4), north = Num (211 / 4), east = Num (27 / 2)\<rparr>
              (50, 50) 16),
      Some (FitBounds \<lparr>south = Num (105 / 2), west = Num (53 / 4), north = Num (211 / 4), east = Num (27 / 2)\<rparr>
              (50, 50) 16)]"
  by (simp add: mount_def MapComponent_def MapUpdater_def safeCenter_def safePlaces_def
        isValidLatLng_def latLngBounds_def)

section \<open>Properties of the saved places\<close>

text \<open>
  C7. The claim counts a result place as a duplicate only when a stored place has the
  same name and both latitude and longitude within the tolerance. The handler compares
  the latitude alone: a result place named like a stored one, on the same latitude and
  eighty degrees of longitude away, is reported as already stored and is not added.
\<close>

theorem saveAll_ignores_longitude:
  "handleSaveAllToDatabase
     (Some [\<lparr>place_id = ''s1'', name = ''Cafe'', coordinate = \<lparr>lat = Num 10, lng = Num 20\<rparr>, description = None\<rparr>])
     [\<lparr>place_id = ''r1'', name = ''Cafe'', coordinate = \<lparr>lat = Num 10, lng = Num 100\<rparr>, description = None\<rparr>]
   = \<lparr>stored = Some [\<lparr>place_id = ''s1'', name = ''Cafe'', coordinate = \<lparr>lat = Num 10, lng = Num 20\<rparr>, description = None\<rparr>],
      added = 0,
      dbMessage = ''Locations already in database''\<rparr>"
  by (simp add: handleSaveAllToDatabase_def save_place_def exists_in_def)

text \<open>
  C10. For every saved list and every call \<open>remove(id, name)\<close>, the resulting list
  keeps exactly the places whose id differs from the given id and whose name differs
  from the given name, in their stored order; so no place carrying the given name is
  left, whatever its id and coordinates.
\<close>

theorem removeFromDatabase_keeps:
  "removeFromDatabase saved i n = filter (\<lambda>p. place_id p \<noteq> i \<and> name p \<noteq> n) saved
   \<and> set (removeFromDatabase saved i n) = {p \<in> set saved. place_id p \<noteq> i \<and> name p \<noteq> n}
   \<and> (\<forall>p \<in> set saved. name p = n \<longrightarrow> p \<notin> set (removeFromDatabase saved i n))"
  by (auto simp: removeFromDatabase_def)

theorem removeFromDatabase_keeps_witness:
  "removeFromDatabase
     [\<lparr>place_id = ''a1'', name = ''Cafe'', coordinate = \<lparr>lat = Num 1, lng = Num 2\<rparr>, description = None\<rparr>,
      \<lparr>place_id = ''b2'', name = ''Cafe'', coordinate = \<lparr>lat = Num 50, lng = Num 60\<rparr>, description = None\<rparr>,
      \<lparr>place_id = ''c3'', name = ''Park'', coordinate = \<lparr>lat = Num 1, lng = Num 2\<rparr>, description = None\<rparr>]
     ''a1'' ''Cafe''
   = [\<lparr>place_id = ''c3'', name = ''Park'', coordinate = \<lparr>lat = Num 1, lng = Num 2\<rparr>, description = None\<rparr>]
   \<and> \<lparr>place_id = ''b2'', name = ''Cafe'', coordinate = \<lparr>lat = Num 50, lng = Num 60\<rparr>, description = None\<rparr>
       \<notin> set (removeFromDatabase
     [\<lparr>place_id = ''a1'', name = ''Cafe'', coordinate = \<lparr>lat = Num 1, lng = Num 2\<rparr>, description = None\<rparr>,
      \<lparr>place_id = ''b2'', name = ''Cafe'', coordinate = \<lparr>lat = Num 50, lng = Num 60\<rparr>, description = None\<rparr>,
      \<lparr>place_id = ''c3'', name = ''Park'', coordinate = \<lparr>lat = Num 1, lng = Num 2\<rparr>, description = None\<rparr>]
     ''a1'' ''Cafe'')"
  using removeFromDatabase_keeps
    [of "[\<lparr>place_id = ''a1'', name = ''Cafe'', coordinate = \<lparr>lat = Num 1, lng = Num 2\<rparr>, description = None\<rparr>,
      \<lparr>place_id = ''b2'', name = ''Cafe'', coordinate = \<lparr>lat = Num 50, lng = Num 60\<rparr>, description = None\<rparr>,
      \<lparr>place_id = ''c3'', name = ''Park'', coordinate = \<lparr>lat = Num 1, lng = Num 2\<rparr>, description = None\<rparr>]"
        "''a1''" "''Cafe''"]
  by simp

end
